theory Spec2Isabelle
  imports Complex_Main "HOL-Library.Multiset"
begin

section \<open>cc-sync: the synchronisation protocol, embedded from the TypeScript sources\<close>

text \<open>
  Conventions of the embedding.
  \<^item> JavaScript strings are \<open>string\<close> (lists of 8-bit characters). For ASCII text this is
    both what \<open>===\<close>, \<open>startsWith\<close>, \<open>endsWith\<close> and \<open>split\<close> see and what
    \<open>new Blob([s]).size\<close> counts (the UTF-8 byte length).
  \<^item> JavaScript numbers that the code uses as sizes, versions and millisecond timestamps are
    \<open>int\<close>: doubles with an integer value. Only their order, sums and differences are
    used. A sum that the server computes on stored numbers is \<open>js_add\<close>, which rounds as
    a double does. The other sums and differences are of clock readings and modification
    times, far below \<open>2 ^ 53\<close>, where the arithmetic of integers is exact.
  \<^item> Convex document ids are natural numbers, handed out by a counter of the database.
  \<^item> A thrown \<open>Error\<close> is the \<open>Inl\<close> of a sum type. A Convex mutation that throws is rolled
    back, so an \<open>Inl\<close> carries no database.
  \<^item> \<open>Date.now()\<close> is an argument \<open>now\<close> of each server function.
\<close>

subsection \<open>String helpers (\<open>String.prototype\<close>)\<close>

definition startsWith :: "string \<Rightarrow> string \<Rightarrow> bool" where
  "startsWith s p = (take (length p) s = p)"

definition endsWith :: "string \<Rightarrow> string \<Rightarrow> bool" where
  "endsWith s p = (length p \<le> length s \<and> drop (length s - length p) s = p)"

text \<open>\<open>s.split(c)\<close> for a one-character separator: the pieces between the separators.\<close>

fun split_acc :: "char \<Rightarrow> string \<Rightarrow> string \<Rightarrow> string list" where
  "split_acc c cur [] = [rev cur]"
| "split_acc c cur (x # xs) =
     (if x = c then rev cur # split_acc c [] xs else split_acc c (x # cur) xs)"

definition split :: "char \<Rightarrow> string \<Rightarrow> string list" where
  "split c s = split_acc c [] s"

text \<open>\<open>xs[i]\<close> on an array: \<open>undefined\<close> (here \<open>None\<close>) out of range.\<close>

definition index_opt :: "'a list \<Rightarrow> nat \<Rightarrow> 'a option" where
  "index_opt xs i = (if i < length xs then Some (xs ! i) else None)"

text \<open>\<open>a || "unknown"\<close> where \<open>a\<close> is a string or \<open>undefined\<close>: the empty string is falsy.\<close>

definition or_unknown :: "string option \<Rightarrow> string" where
  "or_unknown a = (case a of None \<Rightarrow> ''unknown'' | Some s \<Rightarrow> if s = [] then ''unknown'' else s)"

subsection \<open>Numbers\<close>

text \<open>
  \<open>a + b\<close> on two numbers with integer values: the double nearest to the exact sum, and of
  two doubles that are equally near the one with the even significand (IEEE 754, round to
  nearest, ties to even). A double has 53 significant bits. So an integer of absolute value
  up to \<open>2 ^ 53\<close> is its own double, and the doubles around a larger integer of \<open>L\<close> bits
  are the multiples of \<open>2 ^ (L - 53)\<close>. (The largest finite double, near \<open>1.8e308\<close>, is
  out of the reach of a sum of a stored number and a byte count.)
\<close>

function bit_length :: "int \<Rightarrow> nat" where
  "bit_length n = (if n \<le> 0 then 0 else Suc (bit_length (n div 2)))"
  by pat_completeness auto
termination
  by (relation "measure nat") auto

definition round_double :: "int \<Rightarrow> int" where
  "round_double n =
     (if \<bar>n\<bar> \<le> 9007199254740992 then n
      else (let u = 2 ^ (bit_length \<bar>n\<bar> - 53); q = n div u; r = n mod u
            in if 2 * r < u then q * u
               else if u < 2 * r then (q + 1) * u
               else if even q then q * u else (q + 1) * u))"

definition js_add :: "int \<Rightarrow> int \<Rightarrow> int" where
  "js_add a b = round_double (a + b)"

subsection \<open>\<open>Array.prototype.sort\<close> with a comparator\<close>

text \<open>
  \<open>le a b\<close> stands for \<open>comparator(a, b) \<le> 0\<close>. The sort is stable (ECMAScript 2019), and
  for a comparator that is a consistent ordering every conforming implementation returns
  the list computed here: each element is inserted behind the elements that do not have
  to come after it. Where the comparator is not consistent the standard leaves the order
  to the implementation; of the result on such a comparator the theorems below use only
  that it is a rearrangement of the input, which holds of every implementation.
\<close>

fun js_insert :: "('a \<Rightarrow> 'a \<Rightarrow> bool) \<Rightarrow> 'a \<Rightarrow> 'a list \<Rightarrow> 'a list" where
  "js_insert le x [] = [x]"
| "js_insert le x (y # ys) = (if le y x then y # js_insert le x ys else x # y # ys)"

definition js_sort :: "('a \<Rightarrow> 'a \<Rightarrow> bool) \<Rightarrow> 'a list \<Rightarrow> 'a list" where
  "js_sort le xs = foldl (\<lambda>acc x. js_insert le x acc) [] xs"

subsection \<open>The schema (\<open>schema.ts\<close>)\<close>

record user =
  u_id :: nat
  storageUsed :: int
  storageLimit :: int
  lastSyncAt :: int

record apiKey_row =
  ak_userId :: nat
  keyHash :: string
  revokedAt :: "int option"

datatype fileType = Todo | SessionEnv

text \<open>
  A row of \<open>configFiles\<close> or of \<open>sessionFiles\<close>; the two tables differ in the fields
  \<open>sessionId\<close> and \<open>fileType\<close>, which only \<open>sessionFiles\<close> rows carry.
\<close>

record file_row =
  f_id :: nat
  userId :: nat
  deviceId :: string
  sessionId :: "string option"
  fileType :: "fileType option"
  filePath :: string
  content :: string
  contentHash :: string
  lastModified :: int
  version :: int
  syncedAt :: int

datatype resolution = keep_local | keep_remote | keep_both | manual

record conflict_row =
  c_id :: nat
  c_userId :: nat
  c_filePath :: string
  deviceAId :: string
  deviceBId :: string
  contentA :: string
  contentB :: string
  createdAt :: int
  resolvedAt :: "int option"
  c_resolution :: "resolution option"

text \<open>The database: each table in creation order, and the counter that names new rows.\<close>

record db =
  users :: "user list"
  apiKeys :: "apiKey_row list"
  configFiles :: "file_row list"
  sessionFiles :: "file_row list"
  syncConflicts :: "conflict_row list"
  nextId :: nat

datatype tableName = ConfigFilesT | SessionFilesT

definition table_rows :: "db \<Rightarrow> tableName \<Rightarrow> file_row list" where
  "table_rows d t = (case t of ConfigFilesT \<Rightarrow> configFiles d | SessionFilesT \<Rightarrow> sessionFiles d)"

definition set_table_rows :: "tableName \<Rightarrow> file_row list \<Rightarrow> db \<Rightarrow> db" where
  "set_table_rows t rows d =
     (case t of ConfigFilesT \<Rightarrow> d\<lparr>configFiles := rows\<rparr> | SessionFilesT \<Rightarrow> d\<lparr>sessionFiles := rows\<rparr>)"

text \<open>\<open>ctx.db.get(userId)\<close>.\<close>

definition get_user :: "db \<Rightarrow> nat \<Rightarrow> user option" where
  "get_user d uid = find (\<lambda>u. u_id u = uid) (users d)"

text \<open>\<open>ctx.db.patch(user._id, fields)\<close>: the update \<open>g\<close> applied to the row of that id.\<close>

definition patch_user :: "nat \<Rightarrow> (user \<Rightarrow> user) \<Rightarrow> db \<Rightarrow> db" where
  "patch_user uid g d = d\<lparr>users := map (\<lambda>u. if u_id u = uid then g u else u) (users d)\<rparr>"

text \<open>\<open>.withIndex("by_user_and_path", userId, filePath).first()\<close>.\<close>

definition first_by_user_and_path :: "file_row list \<Rightarrow> nat \<Rightarrow> string \<Rightarrow> file_row option" where
  "first_by_user_and_path rows uid p = find (\<lambda>r. userId r = uid \<and> filePath r = p) rows"

text \<open>\<open>.withIndex("by_user", userId).collect()\<close>.\<close>

definition by_user :: "file_row list \<Rightarrow> nat \<Rightarrow> file_row list" where
  "by_user rows uid = filter (\<lambda>r. userId r = uid) rows"

text \<open>\<open>ctx.db.patch(existing._id, fields)\<close> on a file table.\<close>

definition patch_file :: "tableName \<Rightarrow> nat \<Rightarrow> (file_row \<Rightarrow> file_row) \<Rightarrow> db \<Rightarrow> db" where
  "patch_file t fid g d =
     set_table_rows t (map (\<lambda>r. if f_id r = fid then g r else r) (table_rows d t)) d"

subsection \<open>JavaScript values\<close>

text \<open>
  What \<open>JSON.parse\<close> returns, and \<open>undefined\<close>. The code compares and subtracts numbers
  only, so the finite numbers of a JSON text are rationals here (a literal beyond the
  range of a double, which parses to \<open>Infinity\<close>, is left out). An object is the list of
  its own properties in enumeration order.
\<close>

datatype jsval =
    JUndefined
  | JNull
  | JBool bool
  | JNum rat
  | JStr string
  | JArr "jsval list"
  | JObj "(string \<times> jsval) list"

text \<open>Truthiness (\<open>ToBoolean\<close>).\<close>

fun truthy :: "jsval \<Rightarrow> bool" where
  "truthy JUndefined = False"
| "truthy JNull = False"
| "truthy (JBool b) = b"
| "truthy (JNum n) = (n \<noteq> 0)"
| "truthy (JStr s) = (s \<noteq> [])"
| "truthy (JArr xs) = True"
| "truthy (JObj kvs) = True"

text \<open>\<open>a || b\<close>.\<close>

definition js_or :: "jsval \<Rightarrow> jsval \<Rightarrow> jsval" where
  "js_or a b = (if truthy a then a else b)"

text \<open>
  \<open>v.id\<close>, \<open>v.uuid\<close>, \<open>v.timestamp\<close>: reading a property of \<open>null\<close> or \<open>undefined\<close>
  throws a TypeError (\<open>None\<close>); a parsed object yields its own property or \<open>undefined\<close>;
  arrays, strings, numbers and booleans have no property of these three names.
\<close>

fun js_get :: "jsval \<Rightarrow> string \<Rightarrow> jsval option" where
  "js_get JUndefined k = None"
| "js_get JNull k = None"
| "js_get (JObj kvs) k = Some (case map_of kvs k of None \<Rightarrow> JUndefined | Some v \<Rightarrow> v)"
| "js_get v k = Some JUndefined"

text \<open>\<open>typeof v === "object"\<close> and \<open>typeof v === "string"\<close>.\<close>

fun typeof_object :: "jsval \<Rightarrow> bool" where
  "typeof_object JNull = True"
| "typeof_object (JArr xs) = True"
| "typeof_object (JObj kvs) = True"
| "typeof_object v = False"

fun typeof_string :: "jsval \<Rightarrow> bool" where
  "typeof_string (JStr s) = True"
| "typeof_string v = False"

text \<open>
  Key equality of a \<open>Map\<close> (SameValueZero). Every array or object used as a key comes from
  its own call of \<open>JSON.parse\<close>, so as a reference it equals no other key.
\<close>

fun same_value_zero :: "jsval \<Rightarrow> jsval \<Rightarrow> bool" where
  "same_value_zero JUndefined JUndefined = True"
| "same_value_zero JNull JNull = True"
| "same_value_zero (JBool a) (JBool b) = (a = b)"
| "same_value_zero (JNum a) (JNum b) = (a = b)"
| "same_value_zero (JStr a) (JStr b) = (a = b)"
| "same_value_zero a b = False"

text \<open>A \<open>Map\<close>: its entries in insertion order; \<open>set\<close> on a present key keeps the position.\<close>

type_synonym jsmap = "(jsval \<times> jsval) list"

definition map_has :: "jsmap \<Rightarrow> jsval \<Rightarrow> bool" where
  "map_has m k = list_ex (\<lambda>kv. same_value_zero (fst kv) k) m"

definition map_get :: "jsmap \<Rightarrow> jsval \<Rightarrow> jsval" where
  "map_get m k = (case find (\<lambda>kv. same_value_zero (fst kv) k) m of
                    None \<Rightarrow> JUndefined | Some kv \<Rightarrow> snd kv)"

fun map_set :: "jsval \<Rightarrow> jsval \<Rightarrow> jsmap \<Rightarrow> jsmap" where
  "map_set k v [] = [(k, v)]"
| "map_set k v (kv # m) =
     (if same_value_zero (fst kv) k then (fst kv, v) # m else kv # map_set k v m)"

text \<open>
  The order of two ASCII strings under \<open><\<close>: by code unit, which for ASCII text is by
  byte. (For other text the order of the code units is a parameter, see \<open>StringLess\<close>
  below.)
\<close>

fun ascii_less :: "string \<Rightarrow> string \<Rightarrow> bool" where
  "ascii_less [] [] = False"
| "ascii_less [] (y # ys) = True"
| "ascii_less (x # xs) [] = False"
| "ascii_less (x # xs) (y # ys) =
     ((of_char x :: nat) < of_char y \<or> (x = y \<and> ascii_less xs ys))"

text \<open>Decimal digits of an array index, for the property names of arrays and strings.\<close>

fun nat_to_dec :: "nat \<Rightarrow> string" where
  "nat_to_dec n =
     (if n < 10 then [char_of (48 + n)] else nat_to_dec (n div 10) @ [char_of (48 + n mod 10)])"

definition is_digit :: "char \<Rightarrow> bool" where
  "is_digit c = (48 \<le> (of_char c :: nat) \<and> (of_char c :: nat) \<le> 57)"

definition dec_value :: "string \<Rightarrow> int" where
  "dec_value s = foldl (\<lambda>acc c. 10 * acc + ((of_char c :: int) - 48)) 0 s"

text \<open>
  An array index is a canonical numeric property name below \<open>2^32 - 1\<close>; own properties
  are enumerated with the array indices first, ascending, then the other names in
  creation order.
\<close>

definition array_index :: "string \<Rightarrow> int option" where
  "array_index s =
     (if s \<noteq> [] \<and> list_all is_digit s \<and> (s = ''0'' \<or> hd s \<noteq> CHR ''0'')
         \<and> dec_value s < 4294967295
      then Some (dec_value s) else None)"

fun insert_index :: "int \<Rightarrow> string \<Rightarrow> jsval \<Rightarrow> (string \<times> jsval) list \<Rightarrow> (string \<times> jsval) list" where
  "insert_index i k v [] = [(k, v)]"
| "insert_index i k v (kv # kvs) =
     (case array_index (fst kv) of
        None \<Rightarrow> (k, v) # kv # kvs
      | Some j \<Rightarrow> if i < j then (k, v) # kv # kvs else kv # insert_index i k v kvs)"

text \<open>Defining or overwriting one own property of an object.\<close>

definition obj_set :: "string \<Rightarrow> jsval \<Rightarrow> (string \<times> jsval) list \<Rightarrow> (string \<times> jsval) list" where
  "obj_set k v kvs =
     (if map_of kvs k \<noteq> None then map (\<lambda>kv. if fst kv = k then (k, v) else kv) kvs
      else case array_index k of
             None \<Rightarrow> kvs @ [(k, v)]
           | Some i \<Rightarrow> insert_index i k v kvs)"

text \<open>The own enumerable properties that a spread \<open>{...v}\<close> copies.\<close>

fun own_props :: "jsval \<Rightarrow> (string \<times> jsval) list" where
  "own_props (JObj kvs) = kvs"
| "own_props (JArr xs) = zip (map nat_to_dec [0..<length xs]) xs"
| "own_props (JStr s) = zip (map nat_to_dec [0..<length s]) (map (\<lambda>c. JStr [c]) s)"
| "own_props v = []"

definition spread :: "(string \<times> jsval) list \<Rightarrow> jsval \<Rightarrow> (string \<times> jsval) list" where
  "spread target src = foldl (\<lambda>acc kv. obj_set (fst kv) (snd kv) acc) target (own_props src)"

text \<open>The value of the own property \<open>k\<close> of a value; of two entries for a name the later counts.\<close>

definition own_prop :: "jsval \<Rightarrow> string \<Rightarrow> jsval option" where
  "own_prop v k = map_of (rev (own_props v)) k"

subsection \<open>Collaborators outside the repository\<close>

text \<open>
  The runtime and library functions the sources call and do not define:
  \<^item> SHA-256 (\<open>crypto.subtle.digest\<close>) behind \<open>hashApiKey\<close> and \<open>computeHash\<close>;
  \<^item> the answer \<open>(ok, retryAfter)\<close> of \<open>rateLimiter.limit(ctx, "syncOperation", {key})\<close>;
  \<^item> \<open>JSON.parse\<close> (\<open>None\<close> is its SyntaxError) and \<open>JSON.stringify(v, null, indent)\<close>;
  \<^item> the conversion of a string to a number (\<open>None\<close> is NaN);
  \<^item> the order \<open>a < b\<close> of two strings, by UTF-16 code unit;
  \<^item> \<open>ToPrimitive\<close> on an array or object, which yields a string, or throws a TypeError
    (\<open>None\<close>) when own properties hide \<open>toString\<close> and \<open>valueOf\<close>.
\<close>

record env =
  sha256_hex :: "string \<Rightarrow> string"
  rateLimit :: "nat \<Rightarrow> bool \<times> int"
  JSON_parse :: "string \<Rightarrow> jsval option"
  JSON_stringify :: "nat \<Rightarrow> jsval \<Rightarrow> string"
  StringToNumber :: "string \<Rightarrow> rat option"
  StringLess :: "string \<Rightarrow> string \<Rightarrow> bool"
  ToPrimitive_obj :: "jsval \<Rightarrow> string option"

datatype error =
    InvalidApiKey
  | RateLimitExceeded int
  | ConflictNotFound
  | ManualContentRequired
  | TypeError

subsection \<open>\<open>_helpers.ts\<close>\<close>

definition hashApiKey :: "env \<Rightarrow> string \<Rightarrow> string" where
  "hashApiKey e apiKey = sha256_hex e apiKey"

definition computeHash :: "env \<Rightarrow> string \<Rightarrow> string" where
  "computeHash e c = sha256_hex e c"

text \<open>
  \<open>!apiKeyRecord || apiKeyRecord.revokedAt\<close>: a key is refused when there is no record or
  when \<open>revokedAt\<close> is truthy (set, and not the number 0).
\<close>

definition validateApiKeyInternal :: "env \<Rightarrow> db \<Rightarrow> string \<Rightarrow> user option" where
  "validateApiKeyInternal e d apiKey =
     (case find (\<lambda>k. keyHash k = hashApiKey e apiKey) (apiKeys d) of
        None \<Rightarrow> None
      | Some apiKeyRecord \<Rightarrow>
          (case revokedAt apiKeyRecord of
             None \<Rightarrow> get_user d (ak_userId apiKeyRecord)
           | Some t \<Rightarrow> if t \<noteq> 0 then None else get_user d (ak_userId apiKeyRecord)))"

subsection \<open>\<open>sync.ts\<close>\<close>

record category =
  cat_table :: tableName
  cat_sessionId :: "string option"
  cat_fileType :: "fileType option"

definition categorizeFile :: "string \<Rightarrow> category" where
  "categorizeFile p =
     (if endsWith p ''.md'' \<or> p = ''settings.json'' \<or> p = ''history.jsonl''
         \<or> startsWith p ''commands/'' \<or> startsWith p ''plugins/'' \<or> startsWith p ''agents/''
      then \<lparr>cat_table = ConfigFilesT, cat_sessionId = None, cat_fileType = None\<rparr>
      else if startsWith p ''todos/''
      then \<lparr>cat_table = SessionFilesT,
            cat_sessionId = Some (or_unknown
               (case index_opt (split CHR ''/'' p) 1 of
                  None \<Rightarrow> None
                | Some seg \<Rightarrow> index_opt (split CHR ''-'' seg) 0)),
            cat_fileType = Some Todo\<rparr>
      else if startsWith p ''session-env/''
      then \<lparr>cat_table = SessionFilesT,
            cat_sessionId = Some (or_unknown (index_opt (split CHR ''/'' p) 1)),
            cat_fileType = Some SessionEnv\<rparr>
      else \<lparr>cat_table = ConfigFilesT, cat_sessionId = None, cat_fileType = None\<rparr>)"

record push_file =
  pf_filePath :: string
  pf_content :: string
  pf_contentHash :: string
  pf_lastModified :: int

datatype status = Success | Conflict | Error

record push_result =
  r_filePath :: string
  r_status :: status
  r_conflictId :: "nat option"
  r_message :: "string option"

text \<open>\<open>new Blob([content]).size\<close>.\<close>

definition blob_size :: "string \<Rightarrow> int" where
  "blob_size c = int (length c)"

text \<open>\<open>ctx.db.insert("syncConflicts", row)\<close>: the new id is returned.\<close>

definition insert_conflict :: "conflict_row \<Rightarrow> db \<Rightarrow> nat \<times> db" where
  "insert_conflict c d =
     (nextId d, d\<lparr>syncConflicts := syncConflicts d @ [c\<lparr>c_id := nextId d\<rparr>], nextId := nextId d + 1\<rparr>)"

definition insert_file :: "tableName \<Rightarrow> file_row \<Rightarrow> db \<Rightarrow> db" where
  "insert_file t r d =
     (set_table_rows t (table_rows d t @ [r\<lparr>f_id := nextId d\<rparr>]) d)\<lparr>nextId := nextId d + 1\<rparr>"

text \<open>
  One iteration of \<open>for (const file of args.files)\<close> in \<open>pushSync\<close>. The variable
  \<open>user\<close> is the document read once before the loop: \<open>ctx.db.patch\<close> writes to the
  database and leaves that object as it was, so every iteration reads the same
  \<open>user.storageUsed\<close>. None of the modelled database calls throws, so the \<open>catch\<close>
  branch of the iteration has no counterpart here.
\<close>

definition pushFile ::
  "user \<Rightarrow> string \<Rightarrow> int \<Rightarrow> db \<times> push_result list \<Rightarrow> push_file \<Rightarrow> db \<times> push_result list" where
  "pushFile usr dev now st file =
     (let d = fst st; results = snd st;
          cat = categorizeFile (pf_filePath file);
          tbl = cat_table cat;
          fileSize = blob_size (pf_content file)
      in
      if js_add (storageUsed usr) fileSize > storageLimit usr then
        (d, results @ [\<lparr>r_filePath = pf_filePath file, r_status = Error, r_conflictId = None,
                        r_message = Some ''Storage quota exceeded''\<rparr>])
      else
        (case first_by_user_and_path (table_rows d tbl) (u_id usr) (pf_filePath file) of
           Some existing \<Rightarrow>
             if contentHash existing = pf_contentHash file then
               (d, results @ [\<lparr>r_filePath = pf_filePath file, r_status = Success,
                               r_conflictId = None, r_message = None\<rparr>])
             else if contentHash existing \<noteq> pf_contentHash file \<and> deviceId existing \<noteq> dev then
               (let (conflictId, d') = insert_conflict
                      \<lparr>c_id = 0, c_userId = u_id usr, c_filePath = pf_filePath file,
                       deviceAId = deviceId existing, deviceBId = dev,
                       contentA = content existing, contentB = pf_content file,
                       createdAt = now, resolvedAt = None, c_resolution = None\<rparr> d
                in (d', results @ [\<lparr>r_filePath = pf_filePath file, r_status = Conflict,
                                    r_conflictId = Some conflictId, r_message = None\<rparr>]))
             else
               (patch_file tbl (f_id existing)
                  (\<lambda>r. r\<lparr>content := pf_content file, contentHash := pf_contentHash file,
                          lastModified := pf_lastModified file,
                          version := js_add (version existing) 1,
                          syncedAt := now, deviceId := dev\<rparr>) d,
                results @ [\<lparr>r_filePath = pf_filePath file, r_status = Success,
                            r_conflictId = None, r_message = None\<rparr>])
         | None \<Rightarrow>
             (let d1 = (case tbl of
                    ConfigFilesT \<Rightarrow> insert_file ConfigFilesT
                      \<lparr>f_id = 0, userId = u_id usr, deviceId = dev, sessionId = None,
                       fileType = None, filePath = pf_filePath file, content = pf_content file,
                       contentHash = pf_contentHash file, lastModified = pf_lastModified file,
                       version = 1, syncedAt = now\<rparr> d
                  | SessionFilesT \<Rightarrow> insert_file SessionFilesT
                      \<lparr>f_id = 0, userId = u_id usr, deviceId = dev,
                       sessionId = Some (or_unknown (cat_sessionId cat)),
                       fileType = Some (case cat_fileType cat of None \<Rightarrow> Todo | Some ft \<Rightarrow> ft),
                       filePath = pf_filePath file, content = pf_content file,
                       contentHash = pf_contentHash file, lastModified = pf_lastModified file,
                       version = 1, syncedAt = now\<rparr> d);
                  d2 = patch_user (u_id usr)
                         (\<lambda>u. u\<lparr>storageUsed := js_add (storageUsed usr) fileSize\<rparr>) d1
              in (d2, results @ [\<lparr>r_filePath = pf_filePath file, r_status = Success,
                                  r_conflictId = None, r_message = None\<rparr>]))))"

text \<open>\<open>Math.ceil(retryAfter / 1000)\<close>.\<close>

definition ceil_div_1000 :: "int \<Rightarrow> int" where
  "ceil_div_1000 n = - ((- n) div 1000)"

definition pushSync ::
  "env \<Rightarrow> db \<Rightarrow> string \<Rightarrow> string \<Rightarrow> push_file list \<Rightarrow> int \<Rightarrow> error + (db \<times> push_result list)" where
  "pushSync e d apiKey dev files now =
     (case validateApiKeyInternal e d apiKey of
        None \<Rightarrow> Inl InvalidApiKey
      | Some usr \<Rightarrow>
          (let (ok, retryAfter) = rateLimit e (u_id usr) in
           if \<not> ok then Inl (RateLimitExceeded (ceil_div_1000 retryAfter))
           else
             (let (d1, results) = foldl (pushFile usr dev now) (d, []) files;
                  d2 = patch_user (u_id usr) (\<lambda>u. u\<lparr>lastSyncAt := now\<rparr>) d1
              in Inr (d2, results))))"


definition unique_ids :: "db \<Rightarrow> bool" where
  "unique_ids d =
     (distinct (map f_id (configFiles d)) \<and> distinct (map f_id (sessionFiles d))
      \<and> list_all (\<lambda>r. f_id r < nextId d) (configFiles d @ sessionFiles d))"

text \<open>The filter callback of \<open>pullSync\<close>, branch by branch.\<close>

definition pull_keep :: "string \<Rightarrow> int option \<Rightarrow> file_row \<Rightarrow> bool" where
  "pull_keep dev lastSyncTime file =
     (if deviceId file = dev then False
      else (case lastSyncTime of
              Some t \<Rightarrow> syncedAt file > t
            | None \<Rightarrow> True))"

text \<open>The record that \<open>pullSync\<close> returns for a row.\<close>

record pulled_file =
  p_id :: nat
  p_filePath :: string
  p_content :: string
  p_contentHash :: string
  p_lastModified :: int
  p_version :: int
  p_syncedAt :: int
  p_deviceId :: string

definition pulled :: "file_row \<Rightarrow> pulled_file" where
  "pulled file = \<lparr>p_id = f_id file, p_filePath = filePath file, p_content = content file,
                  p_contentHash = contentHash file, p_lastModified = lastModified file,
                  p_version = version file, p_syncedAt = syncedAt file,
                  p_deviceId = deviceId file\<rparr>"

definition pullSync :: "env \<Rightarrow> db \<Rightarrow> string \<Rightarrow> string \<Rightarrow> int option \<Rightarrow> error + pulled_file list" where
  "pullSync e d apiKey dev lastSyncTime =
     (case validateApiKeyInternal e d apiKey of
        None \<Rightarrow> Inl InvalidApiKey
      | Some usr \<Rightarrow>
          (let allFiles = by_user (configFiles d) (u_id usr) @ by_user (sessionFiles d) (u_id usr);
               filteredFiles = filter (pull_keep dev lastSyncTime) allFiles
           in Inr (map pulled filteredFiles)))"

text \<open>
  \<open>subscribeToChanges\<close>: the most recent 20 rows of other devices and the unresolved
  conflicts of the user (\<open>resolvedAt\<close> undefined), each reduced to the fields returned.
\<close>

record changed_file =
  ch_id :: nat
  ch_filePath :: string
  ch_contentHash :: string
  ch_lastModified :: int
  ch_version :: int
  ch_deviceId :: string

record open_conflict =
  oc_id :: nat
  oc_filePath :: string
  oc_deviceAId :: string
  oc_deviceBId :: string
  oc_createdAt :: int

definition subscribeToChanges ::
  "env \<Rightarrow> db \<Rightarrow> string \<Rightarrow> string \<Rightarrow> error + (changed_file list \<times> open_conflict list)" where
  "subscribeToChanges e d apiKey dev =
     (case validateApiKeyInternal e d apiKey of
        None \<Rightarrow> Inr ([], [])
      | Some usr \<Rightarrow>
          (let allFiles = by_user (configFiles d) (u_id usr) @ by_user (sessionFiles d) (u_id usr);
               recentFiles = take 20
                 (js_sort (\<lambda>a b. syncedAt b - syncedAt a \<le> 0)
                    (filter (\<lambda>f. deviceId f \<noteq> dev) allFiles));
               conflicts = filter (\<lambda>c. c_userId c = u_id usr \<and> resolvedAt c = None)
                 (syncConflicts d)
           in Inr (map (\<lambda>file. \<lparr>ch_id = f_id file, ch_filePath = filePath file,
                                 ch_contentHash = contentHash file,
                                 ch_lastModified = lastModified file,
                                 ch_version = version file, ch_deviceId = deviceId file\<rparr>)
                     recentFiles,
                   map (\<lambda>c. \<lparr>oc_id = c_id c, oc_filePath = c_filePath c,
                              oc_deviceAId = deviceAId c, oc_deviceBId = deviceBId c,
                              oc_createdAt = createdAt c\<rparr>) conflicts)))"

subsection \<open>\<open>conflicts.ts\<close>\<close>

definition nl :: string where
  "nl = [CHR 0x0A]"

text \<open>\<open>xs.join(sep)\<close>.\<close>

fun join :: "string \<Rightarrow> string list \<Rightarrow> string" where
  "join sep [] = []"
| "join sep [x] = x"
| "join sep (x # y # ys) = x @ sep @ join sep (y # ys)"

definition mergeJSON :: "env \<Rightarrow> string \<Rightarrow> string \<Rightarrow> string" where
  "mergeJSON e cA cB =
     (let markers = ''<<<<<<< VERSION A'' @ nl @ cA @ nl @ ''======='' @ nl @ cB @ nl
                      @ ''>>>>>>> VERSION B''
      in case JSON_parse e cA of
           None \<Rightarrow> markers
         | Some objA \<Rightarrow>
             (case JSON_parse e cB of
                None \<Rightarrow> markers
              | Some objB \<Rightarrow> JSON_stringify e 2 (JObj (spread (spread [] objA) objB))))"

text \<open>
  The implicit conversions behind the comparison and the subtraction of the code. \<open>ToPrimitive\<close> leaves a primitive as
  it is and turns an array or object into a string, or throws (\<open>None\<close>).
\<close>

definition to_primitive :: "env \<Rightarrow> jsval \<Rightarrow> jsval option" where
  "to_primitive e v =
     (case v of
        JArr xs \<Rightarrow> map_option JStr (ToPrimitive_obj e v)
      | JObj kvs \<Rightarrow> map_option JStr (ToPrimitive_obj e v)
      | _ \<Rightarrow> Some v)"

text \<open>\<open>ToNumber\<close> of a primitive; \<open>None\<close> is NaN.\<close>

definition prim_to_number :: "env \<Rightarrow> jsval \<Rightarrow> rat option" where
  "prim_to_number e v =
     (case v of
        JNull \<Rightarrow> Some 0
      | JBool b \<Rightarrow> Some (if b then 1 else 0)
      | JNum n \<Rightarrow> Some n
      | JStr s \<Rightarrow> StringToNumber e s
      | _ \<Rightarrow> None)"

text \<open>
  The comparison \<^verbatim>\<open>a > b\<close>: two strings are compared by code unit, anything else as numbers, and a
  comparison with NaN is false. The outer \<open>None\<close> is a thrown TypeError.
\<close>

definition js_gt :: "env \<Rightarrow> jsval \<Rightarrow> jsval \<Rightarrow> bool option" where
  "js_gt e a b =
     (case to_primitive e a of
        None \<Rightarrow> None
      | Some pa \<Rightarrow>
          (case to_primitive e b of
             None \<Rightarrow> None
           | Some pb \<Rightarrow>
               Some (case (pa, pb) of
                       (JStr x, JStr y) \<Rightarrow> StringLess e y x
                     | _ \<Rightarrow> (case (prim_to_number e pa, prim_to_number e pb) of
                               (Some x, Some y) \<Rightarrow> y < x
                             | _ \<Rightarrow> False))))"

text \<open>\<open>a - b\<close>: the outer \<open>None\<close> is a thrown TypeError, the inner one NaN.\<close>

definition js_sub :: "env \<Rightarrow> jsval \<Rightarrow> jsval \<Rightarrow> rat option option" where
  "js_sub e a b =
     (case to_primitive e a of
        None \<Rightarrow> None
      | Some pa \<Rightarrow>
          (case to_primitive e b of
             None \<Rightarrow> None
           | Some pb \<Rightarrow>
               Some (case (prim_to_number e pa, prim_to_number e pb) of
                       (Some x, Some y) \<Rightarrow> Some (x - y)
                     | _ \<Rightarrow> None)))"

text \<open>
  The body of the \<open>for\<close> loop of \<open>mergeJSONL\<close>. Whatever throws inside the \<open>try\<close>
  does so before the map is written, and the \<open>catch\<close> stores the line under itself.
\<close>

definition jsonl_step :: "env \<Rightarrow> jsmap \<Rightarrow> string \<Rightarrow> jsmap" where
  "jsonl_step e allLines line =
     (let caught = map_set (JStr line) (JStr line) allLines
      in case JSON_parse e line of
           None \<Rightarrow> caught
         | Some obj \<Rightarrow>
             (case (js_get obj ''id'', js_get obj ''uuid'', js_get obj ''timestamp'') of
                (Some i, Some u, Some t) \<Rightarrow>
                  (let ident = js_or (js_or (js_or i u) t) (JStr line)
                   in if \<not> map_has allLines ident then map_set ident obj allLines
                      else (case js_get (map_get allLines ident) ''timestamp'' of
                              None \<Rightarrow> caught
                            | Some te \<Rightarrow>
                                if truthy t
                                then (case js_gt e t (js_or te (JNum 0)) of
                                        None \<Rightarrow> caught
                                      | Some True \<Rightarrow> map_set ident obj allLines
                                      | Some False \<Rightarrow> allLines)
                                else allLines))
              | _ \<Rightarrow> caught))"

text \<open>
  The comparator of the final sort, as \<open>comparator(a, b) \<le> 0\<close>; a NaN result counts as 0.
  \<open>None\<close> is a TypeError thrown by the comparator.
\<close>

definition jsonl_cmp :: "env \<Rightarrow> jsval \<Rightarrow> jsval \<Rightarrow> bool option" where
  "jsonl_cmp e a b =
     (if typeof_object a \<and> typeof_object b
      then (case (js_get a ''timestamp'', js_get b ''timestamp'') of
              (Some ta, Some tb) \<Rightarrow>
                (case js_sub e (js_or ta (JNum 0)) (js_or tb (JNum 0)) of
                   None \<Rightarrow> None
                 | Some None \<Rightarrow> Some True
                 | Some (Some r) \<Rightarrow> Some (r \<le> 0))
            | _ \<Rightarrow> None)
      else Some True)"

text \<open>
  The sort of section \<open>Array.prototype.sort\<close> with a comparator that may throw. Which
  pairs are compared is the choice of the implementation, so that the sort returns is
  stated below only for inputs on which the comparator throws for no pair.
\<close>

fun js_insert_t :: "('a \<Rightarrow> 'a \<Rightarrow> bool option) \<Rightarrow> 'a \<Rightarrow> 'a list \<Rightarrow> 'a list option" where
  "js_insert_t le x [] = Some [x]"
| "js_insert_t le x (y # ys) =
     (case le y x of
        None \<Rightarrow> None
      | Some True \<Rightarrow> map_option ((#) y) (js_insert_t le x ys)
      | Some False \<Rightarrow> Some (x # y # ys))"

definition js_sort_t :: "('a \<Rightarrow> 'a \<Rightarrow> bool option) \<Rightarrow> 'a list \<Rightarrow> 'a list option" where
  "js_sort_t le xs =
     foldl (\<lambda>acc x. case acc of None \<Rightarrow> None | Some a \<Rightarrow> js_insert_t le x a) (Some []) xs"

text \<open>\<open>typeof item === "string" ? item : JSON.stringify(item)\<close>.\<close>

definition serialize :: "env \<Rightarrow> jsval \<Rightarrow> string" where
  "serialize e item = (case item of JStr s \<Rightarrow> s | _ \<Rightarrow> JSON_stringify e 0 item)"

text \<open>\<open>content.split("\n").filter(Boolean)\<close>.\<close>

definition nonempty_lines :: "string \<Rightarrow> string list" where
  "nonempty_lines c = filter (\<lambda>l. l \<noteq> []) (split (CHR 0x0A) c)"

text \<open>The map that the loop of \<open>mergeJSONL\<close> builds.\<close>

definition jsonl_map :: "env \<Rightarrow> string \<Rightarrow> string \<Rightarrow> jsmap" where
  "jsonl_map e cA cB = foldl (jsonl_step e) [] (nonempty_lines cA @ nonempty_lines cB)"

definition mergeJSONL :: "env \<Rightarrow> string \<Rightarrow> string \<Rightarrow> string option" where
  "mergeJSONL e cA cB =
     (case js_sort_t (jsonl_cmp e) (map snd (jsonl_map e cA cB)) of
        None \<Rightarrow> None
      | Some sortedItems \<Rightarrow> Some (join nl (map (serialize e) sortedItems)))"

text \<open>
  For the statements about \<open>mergeJSONL\<close>, in the words of the specification: the field of
  a record (\<open>undefined\<close> when absent); the identity of the record of a line, the first
  truthy value among its fields \<open>id\<close>, \<open>uuid\<close> and \<open>timestamp\<close>, else the text of the
  line; and the timestamp of a record as a number, 0 when there is none.
\<close>

definition field :: "(string \<times> jsval) list \<Rightarrow> string \<Rightarrow> jsval" where
  "field kvs k = (case map_of kvs k of None \<Rightarrow> JUndefined | Some v \<Rightarrow> v)"

definition record_identity :: "string \<Rightarrow> (string \<times> jsval) list \<Rightarrow> jsval" where
  "record_identity line kvs =
     (case filter truthy [field kvs ''id'', field kvs ''uuid'', field kvs ''timestamp''] of
        [] \<Rightarrow> JStr line
      | v # vs \<Rightarrow> v)"

definition record_ts :: "jsval \<Rightarrow> rat" where
  "record_ts v =
     (case v of
        JObj kvs \<Rightarrow> (case map_of kvs ''timestamp'' of Some (JNum n) \<Rightarrow> n | _ \<Rightarrow> 0)
      | _ \<Rightarrow> 0)"

text \<open>No two keys of a map are the same key.\<close>

fun keys_apart :: "jsmap \<Rightarrow> bool" where
  "keys_apart [] = True"
| "keys_apart (kv # m) =
     (list_all (\<lambda>kv'. \<not> same_value_zero (fst kv) (fst kv')) m \<and> keys_apart m)"

fun is_primitive :: "jsval \<Rightarrow> bool" where
  "is_primitive (JArr xs) = False"
| "is_primitive (JObj kvs) = False"
| "is_primitive v = True"

text \<open>
  A line that parses to a record whose timestamp is absent or a number that is not
  negative, and whose identity is a number, a string or a boolean.
\<close>

definition plain_record :: "env \<Rightarrow> string \<Rightarrow> bool" where
  "plain_record e line =
     (case JSON_parse e line of
        Some (JObj kvs) \<Rightarrow>
          (case map_of kvs ''timestamp'' of
             None \<Rightarrow> True
           | Some (JNum n) \<Rightarrow> 0 \<le> n
           | Some v \<Rightarrow> False)
          \<and> is_primitive (record_identity line kvs)
      | _ \<Rightarrow> False)"

text \<open>
  A stored value that the comparator of the final sort reads and converts without a call
  of \<open>ToPrimitive\<close> on an array or object: it is not \<open>null\<close> or \<open>undefined\<close>, and if it
  is a record, its timestamp is none of the two.
\<close>

definition comparable :: "jsval \<Rightarrow> bool" where
  "comparable v =
     (case v of
        JUndefined \<Rightarrow> False
      | JNull \<Rightarrow> False
      | JObj kvs \<Rightarrow> is_primitive (field kvs ''timestamp'')
      | _ \<Rightarrow> True)"

text \<open>The \<open>switch\<close> of \<open>resolveConflict\<close> that determines \<open>finalContent\<close>.\<close>

definition finalContent ::
  "env \<Rightarrow> conflict_row \<Rightarrow> resolution \<Rightarrow> string option \<Rightarrow> string \<Rightarrow> error + string" where
  "finalContent e conflict res manualContent dev =
     (case res of
        keep_local \<Rightarrow>
          Inr (if deviceAId conflict = dev then contentA conflict else contentB conflict)
      | keep_remote \<Rightarrow>
          Inr (if deviceAId conflict = dev then contentB conflict else contentA conflict)
      | keep_both \<Rightarrow>
          if endsWith (c_filePath conflict) ''.json''
          then Inr (mergeJSON e (contentA conflict) (contentB conflict))
          else if endsWith (c_filePath conflict) ''.jsonl''
          then (case mergeJSONL e (contentA conflict) (contentB conflict) of
                  None \<Rightarrow> Inl TypeError
                | Some c \<Rightarrow> Inr c)
          else Inr (''<<<<<<< DEVICE '' @ deviceAId conflict @ nl @ contentA conflict @ nl
                    @ ''======='' @ nl @ contentB conflict @ nl
                    @ ''>>>>>>> DEVICE '' @ deviceBId conflict)
      | manual \<Rightarrow>
          (case manualContent of
             None \<Rightarrow> Inl ManualContentRequired
           | Some c \<Rightarrow> if c = [] then Inl ManualContentRequired else Inr c))"

definition resolveConflict ::
  "env \<Rightarrow> db \<Rightarrow> string \<Rightarrow> nat \<Rightarrow> resolution \<Rightarrow> string option \<Rightarrow> string \<Rightarrow> int
     \<Rightarrow> error + (db \<times> string)" where
  "resolveConflict e d apiKey conflictId res manualContent dev now =
     (case validateApiKeyInternal e d apiKey of
        None \<Rightarrow> Inl InvalidApiKey
      | Some usr \<Rightarrow>
          (case find (\<lambda>c. c_id c = conflictId) (syncConflicts d) of
             None \<Rightarrow> Inl ConflictNotFound
           | Some conflict \<Rightarrow>
               if c_userId conflict \<noteq> u_id usr then Inl ConflictNotFound
               else
                 (case finalContent e conflict res manualContent dev of
                    Inl err \<Rightarrow> Inl err
                  | Inr final \<Rightarrow>
                      (let p = c_filePath conflict;
                           isConfigFile = (endsWith p ''.md'' \<or> p = ''settings.json''
                              \<or> p = ''history.jsonl'' \<or> startsWith p ''commands/''
                              \<or> startsWith p ''plugins/'' \<or> startsWith p ''agents/'');
                           tbl = (if isConfigFile then ConfigFilesT else SessionFilesT);
                           hash = computeHash e final;
                           d1 = (case first_by_user_and_path (table_rows d tbl) (u_id usr) p of
                                   Some existingFile \<Rightarrow>
                                     patch_file tbl (f_id existingFile)
                                       (\<lambda>r. r\<lparr>content := final, contentHash := hash,
                                               lastModified := now,
                                               version := js_add (version existingFile) 1,
                                               syncedAt := now, deviceId := dev\<rparr>) d
                                 | None \<Rightarrow>
                                     (case tbl of
                                        ConfigFilesT \<Rightarrow> insert_file ConfigFilesT
                                          \<lparr>f_id = 0, userId = u_id usr, deviceId = dev,
                                           sessionId = None, fileType = None, filePath = p,
                                           content = final, contentHash = hash,
                                           lastModified = now, version = 1, syncedAt = now\<rparr> d
                                      | SessionFilesT \<Rightarrow> insert_file SessionFilesT
                                          \<lparr>f_id = 0, userId = u_id usr, deviceId = dev,
                                           sessionId = Some (or_unknown
                                             (case index_opt (split CHR ''/'' p) 1 of
                                                None \<Rightarrow> None
                                              | Some seg \<Rightarrow> index_opt (split CHR ''-'' seg) 0)),
                                           fileType = Some (if startsWith p ''todos/''
                                                            then Todo else SessionEnv),
                                           filePath = p, content = final, contentHash = hash,
                                           lastModified = now, version = 1, syncedAt = now\<rparr> d));
                           d2 = d1\<lparr>syncConflicts :=
                                  map (\<lambda>c. if c_id c = conflictId
                                            then c\<lparr>resolvedAt := Some now,
                                                   c_resolution := Some res\<rparr>
                                            else c) (syncConflicts d1)\<rparr>
                       in Inr (d2, final)))))"

subsection \<open>\<open>sync-utils.ts\<close>: the inventory scan\<close>

text \<open>
  The file system under the sync root: a regular file with its content and \<open>mtimeMs\<close>, or
  a directory with its \<open>mtimeMs\<close> and its entries in the order of \<open>readdirSync\<close>. Every
  regular file is readable; \<open>readFileSync\<close> on a directory throws.
\<close>

datatype fsnode =
    File string int
  | Dir int "(string \<times> fsnode) list"

fun mtimeMs :: "fsnode \<Rightarrow> int" where
  "mtimeMs (File c m) = m"
| "mtimeMs (Dir m entries) = m"

fun isDirectory :: "fsnode \<Rightarrow> bool" where
  "isDirectory (File c m) = False"
| "isDirectory (Dir m entries) = True"

record local_file =
  lf_filePath :: string
  lf_content :: string
  lf_contentHash :: string
  lf_lastModified :: int

definition EXCLUDED_DIRS :: "string list" where
  "EXCLUDED_DIRS = [''debug'', ''file-history'', ''shell-snapshots'', ''local'', ''statsig'']"

definition LIMITED_DIRS :: "string list" where
  "LIMITED_DIRS = [''todos'', ''session-env'']"

definition MAX_RECENT_FILES :: nat where
  "MAX_RECENT_FILES = 10"

definition MAX_RECENT_SESSIONS :: nat where
  "MAX_RECENT_SESSIONS = 10"

text \<open>\<open>path.join(relativePath, file)\<close> for an entry name; the root has the relative path \<open>""\<close>.\<close>

definition path_join :: "string \<Rightarrow> string \<Rightarrow> string" where
  "path_join rel file = (if rel = [] then file else rel @ ''/'' @ file)"

text \<open>An element of \<open>allSessions\<close>; \<open>s_node\<close> is the file that \<open>fullPath\<close> names.\<close>

record session =
  s_node :: fsnode
  s_relPath :: string
  s_mtime :: int

text \<open>The primary session files of one project directory, in directory order.\<close>

definition project_sessions :: "string \<times> fsnode \<Rightarrow> session list" where
  "project_sessions pd =
     (case snd pd of
        File c m \<Rightarrow> []
      | Dir m files \<Rightarrow>
          map (\<lambda>f. \<lparr>s_node = snd f,
                     s_relPath = ''projects'' @ ''/'' @ fst pd @ ''/'' @ fst f,
                     s_mtime = mtimeMs (snd f)\<rparr>)
            (filter (\<lambda>f. endsWith (fst f) ''.jsonl'' \<and> \<not> startsWith (fst f) ''agent-'') files))"

definition allSessions :: "(string \<times> fsnode) list \<Rightarrow> session list" where
  "allSessions projectDirs = concat (map project_sessions projectDirs)"

definition getRecentSessions :: "(string \<times> fsnode) list \<Rightarrow> nat \<Rightarrow> session list" where
  "getRecentSessions projectDirs limit =
     take limit (js_sort (\<lambda>a b. s_mtime b - s_mtime a \<le> 0) (allSessions projectDirs))"

definition shouldSyncFile :: "string \<Rightarrow> string option \<Rightarrow> bool" where
  "shouldSyncFile fileName dirName =
     (case dirName of
        None \<Rightarrow> endsWith fileName ''.md'' \<or> endsWith fileName ''.json''
                 \<or> endsWith fileName ''.jsonl''
      | Some dn \<Rightarrow>
          if dn = ''commands'' \<and> endsWith fileName ''.md'' then True
          else endsWith fileName ''.json'')"

definition getRecentFiles :: "(string \<times> fsnode) list \<Rightarrow> nat \<Rightarrow> string list" where
  "getRecentFiles entries limit =
     map fst (take limit (js_sort (\<lambda>a b. mtimeMs (snd b) - mtimeMs (snd a) \<le> 0) entries))"

definition read_file :: "env \<Rightarrow> string \<Rightarrow> string \<Rightarrow> int \<Rightarrow> local_file" where
  "read_file e relPath c m =
     \<lparr>lf_filePath = relPath, lf_content = c, lf_contentHash = sha256_hex e c,
      lf_lastModified = m\<rparr>"

text \<open>
  The result that one recent session contributes: its file read, or nothing when
  \<open>readFileSync\<close> throws.
\<close>

definition read_session :: "env \<Rightarrow> session \<Rightarrow> local_file list" where
  "read_session e s =
     (case s_node s of
        File c m \<Rightarrow> [read_file e (s_relPath s) c (s_mtime s)]
      | Dir m entries \<Rightarrow> [])"

definition filesToProcess :: "(string \<times> fsnode) list \<Rightarrow> string option \<Rightarrow> string list" where
  "filesToProcess entries currentDirName =
     (case currentDirName of
        None \<Rightarrow> map fst entries
      | Some dn \<Rightarrow> if dn \<in> set LIMITED_DIRS then getRecentFiles entries MAX_RECENT_FILES
                   else map fst entries)"

text \<open>
  \<open>traverseDir\<close>, on the entries of the current directory; the pushes to \<open>results\<close> are
  the list returned. \<open>statSync\<close> of an entry name is the lookup of the name.
\<close>

function traverseDir ::
  "env \<Rightarrow> (string \<times> fsnode) list \<Rightarrow> string \<Rightarrow> string option \<Rightarrow> local_file list" where
  "traverseDir e entries relativePath currentDirName =
     (if (case currentDirName of None \<Rightarrow> False | Some dn \<Rightarrow> dn \<in> set EXCLUDED_DIRS) then []
      else if currentDirName = Some ''projects''
      then concat (map (read_session e) (getRecentSessions entries MAX_RECENT_SESSIONS))
      else concat (map
             (\<lambda>file. case map_of entries file of
                        None \<Rightarrow> []
                      | Some (Dir m sub) \<Rightarrow>
                          traverseDir e sub (path_join relativePath file) (Some file)
                      | Some (File c m) \<Rightarrow>
                          if shouldSyncFile file currentDirName
                          then [read_file e (path_join relativePath file) c m]
                          else [])
             (filesToProcess entries currentDirName)))"
  by pat_completeness auto
termination
proof -
  have less: "size_list (size_prod (\<lambda>x. 0) size) sub < size_list (size_prod (\<lambda>x. 0) size) entries"
    if "map_of entries name = Some (Dir m sub)"
    for entries :: "(string \<times> fsnode) list" and name m sub
    using that by (induction entries) (auto split: if_splits)
  show ?thesis
    by (relation "measure (\<lambda>(e, entries, rel, dn). size_list (size_prod (\<lambda>x. 0) size) entries)")
       (auto simp: less)
qed

text \<open>\<open>readLocalFiles\<close>; a missing sync root (\<open>None\<close>) is created and yields nothing.\<close>

definition readLocalFiles :: "env \<Rightarrow> (string \<times> fsnode) list option \<Rightarrow> local_file list" where
  "readLocalFiles e syncRoot =
     (case syncRoot of None \<Rightarrow> [] | Some entries \<Rightarrow> traverseDir e entries [] None)"

text \<open>
  For the statements about limited directories: what one entry of such a directory adds
  to the scan once it is in the window, a file under the \<open>.json\<close> rule and a
  subdirectory by its traversal.
\<close>

definition contribution :: "env \<Rightarrow> string \<Rightarrow> string \<times> fsnode \<Rightarrow> local_file list" where
  "contribution e rel x =
     (case snd x of
        File c m \<Rightarrow>
          if endsWith (fst x) ''.json'' then [read_file e (path_join rel (fst x)) c m] else []
      | Dir m sub \<Rightarrow> traverseDir e sub (path_join rel (fst x)) (Some (fst x)))"

subsection \<open>\<open>sync-engine.ts\<close>: the scheduler\<close>

definition DEBOUNCE_MS :: int where
  "DEBOUNCE_MS = 5000"

definition MIN_INTERVAL_MS :: int where
  "MIN_INTERVAL_MS = 30000"

text \<open>
  The fields of \<open>SyncEngine\<close> that scheduling reads and writes, and the timers it has
  armed: the deadline of the debounce timer, and the deadlines of the timers that
  \<open>trySync\<close> sets for a later attempt. \<open>syncsStarted\<close> counts the calls of \<open>performSync\<close>.
\<close>

record engine =
  lastSyncTime :: int
  pendingChanges :: "string list"
  debounceTimer :: "int option"
  retryTimers :: "int list"
  isSyncing :: bool
  syncsStarted :: nat

definition new_engine :: engine where
  "new_engine = \<lparr>lastSyncTime = 0, pendingChanges = [], debounceTimer = None,
                 retryTimers = [], isSyncing = False, syncsStarted = 0\<rparr>"

definition queueChange :: "int \<Rightarrow> string \<Rightarrow> engine \<Rightarrow> engine" where
  "queueChange now p st =
     st\<lparr>pendingChanges := List.insert p (pendingChanges st),
        debounceTimer := Some (now + DEBOUNCE_MS)\<rparr>"

text \<open>\<open>performSync\<close> up to its first \<open>await\<close>, and its end (the \<open>try\<close> or the \<open>catch\<close>, then \<open>finally\<close>).\<close>

definition performSync_begin :: "engine \<Rightarrow> engine" where
  "performSync_begin st = st\<lparr>isSyncing := True, syncsStarted := syncsStarted st + 1\<rparr>"

definition performSync_end :: "int \<Rightarrow> bool \<Rightarrow> engine \<Rightarrow> engine" where
  "performSync_end now ok st =
     (if ok then st\<lparr>lastSyncTime := now, pendingChanges := [], isSyncing := False\<rparr>
      else st\<lparr>isSyncing := False\<rparr>)"

definition trySync :: "int \<Rightarrow> engine \<Rightarrow> engine" where
  "trySync now st =
     (let timeSinceLastSync = now - lastSyncTime st
      in if timeSinceLastSync < MIN_INTERVAL_MS
         then (let waitTime = MIN_INTERVAL_MS - timeSinceLastSync
               in st\<lparr>retryTimers := retryTimers st @ [now + (waitTime + 100)]\<rparr>)
         else if isSyncing st then st
         else performSync_begin st)"

text \<open>What happens to the engine, each with the time at which it happens.\<close>

datatype event =
    FileChanged string
  | DebounceElapsed
  | RetryElapsed
  | SyncFinished bool

definition step :: "engine \<Rightarrow> int \<times> event \<Rightarrow> engine" where
  "step st ev =
     (case snd ev of
        FileChanged p \<Rightarrow> queueChange (fst ev) p st
      | DebounceElapsed \<Rightarrow>
          (case debounceTimer st of
             None \<Rightarrow> st
           | Some t \<Rightarrow> if t \<le> fst ev then trySync (fst ev) (st\<lparr>debounceTimer := None\<rparr>) else st)
      | RetryElapsed \<Rightarrow>
          (case retryTimers st of
             [] \<Rightarrow> st
           | t # ts \<Rightarrow> if t \<le> fst ev then trySync (fst ev) (st\<lparr>retryTimers := ts\<rparr>) else st)
      | SyncFinished ok \<Rightarrow> if isSyncing st then performSync_end (fst ev) ok st else st)"

definition run :: "engine \<Rightarrow> (int \<times> event) list \<Rightarrow> engine" where
  "run st evs = foldl step st evs"

subsection \<open>Example data\<close>

text \<open>
  An environment for the concrete evaluations below. The identity stands in for SHA-256
  (all that matters is that equal inputs have equal digests), the rate limiter always
  admits the call, and no text is JSON.
\<close>

definition example_env :: env where
  "example_env = \<lparr>sha256_hex = (\<lambda>s. s), rateLimit = (\<lambda>u. (True, 0)),
     JSON_parse = (\<lambda>s. None), JSON_stringify = (\<lambda>n v. []),
     StringToNumber = (\<lambda>s. None), StringLess = ascii_less,
     ToPrimitive_obj = (\<lambda>v. None)\<rparr>"

definition example_user :: user where
  "example_user = \<lparr>u_id = 1, storageUsed = 0, storageLimit = 100, lastSyncAt = 0\<rparr>"

text \<open>
  A catalog of two users. User 1 has a row written by device A and one written by device
  B in \<open>configFiles\<close> and a row written by device B in \<open>sessionFiles\<close>; user 7 has a row
  written by device B in each table.
\<close>

definition db_two_users :: db where
  "db_two_users = \<lparr>users = [example_user,
                 \<lparr>u_id = 7, storageUsed = 0, storageLimit = 100, lastSyncAt = 0\<rparr>],
      apiKeys = [\<lparr>ak_userId = 1, keyHash = ''key'', revokedAt = None\<rparr>,
                 \<lparr>ak_userId = 7, keyHash = ''key7'', revokedAt = None\<rparr>],
      configFiles =
        [\<lparr>f_id = 2, userId = 1, deviceId = ''A'', sessionId = None, fileType = None,
          filePath = ''a.md'', content = ''a'', contentHash = ''ha'', lastModified = 9,
          version = 1, syncedAt = 10\<rparr>,
         \<lparr>f_id = 3, userId = 7, deviceId = ''B'', sessionId = None, fileType = None,
          filePath = ''secret.md'', content = ''s'', contentHash = ''hs'', lastModified = 39,
          version = 2, syncedAt = 40\<rparr>,
         \<lparr>f_id = 4, userId = 1, deviceId = ''B'', sessionId = None, fileType = None,
          filePath = ''b.md'', content = ''b'', contentHash = ''hb'', lastModified = 19,
          version = 3, syncedAt = 20\<rparr>],
      sessionFiles =
        [\<lparr>f_id = 5, userId = 1, deviceId = ''B'', sessionId = Some ''t1'',
          fileType = Some Todo, filePath = ''todos/t1-agent.json'', content = ''t'',
          contentHash = ''ht'', lastModified = 29, version = 4, syncedAt = 30\<rparr>,
         \<lparr>f_id = 6, userId = 7, deviceId = ''B'', sessionId = Some ''t9'',
          fileType = Some Todo, filePath = ''todos/t9-agent.json'', content = ''u'',
          contentHash = ''hu'', lastModified = 49, version = 5, syncedAt = 50\<rparr>],
      syncConflicts = [], nextId = 8\<rparr>"

definition pfile :: "string \<Rightarrow> string \<Rightarrow> string \<Rightarrow> push_file" where
  "pfile p c h = \<lparr>pf_filePath = p, pf_content = c, pf_contentHash = h, pf_lastModified = 0\<rparr>"

text \<open>An empty catalog of a user with a storage ceiling of 100 bytes.\<close>

definition db_new :: db where
  "db_new = \<lparr>users = [example_user],
      apiKeys = [\<lparr>ak_userId = 1, keyHash = ''key'', revokedAt = None\<rparr>],
      configFiles = [], sessionFiles = [], syncConflicts = [], nextId = 2\<rparr>"

text \<open>The catalog after device A has pushed two new files of 5 bytes each in one batch.\<close>

definition db_two_files :: db where
  "db_two_files =
     \<lparr>users = [\<lparr>u_id = 1, storageUsed = 5, storageLimit = 100, lastSyncAt = 1000\<rparr>],
      apiKeys = [\<lparr>ak_userId = 1, keyHash = ''key'', revokedAt = None\<rparr>],
      configFiles =
        [\<lparr>f_id = 2, userId = 1, deviceId = ''A'', sessionId = None, fileType = None,
          filePath = ''a.md'', content = ''aaaaa'', contentHash = ''h1'',
          lastModified = 0, version = 1, syncedAt = 1000\<rparr>,
         \<lparr>f_id = 3, userId = 1, deviceId = ''A'', sessionId = None, fileType = None,
          filePath = ''b.md'', content = ''bbbbb'', contentHash = ''h2'',
          lastModified = 0, version = 1, syncedAt = 1000\<rparr>],
      sessionFiles = [], syncConflicts = [], nextId = 4\<rparr>"

text \<open>The catalog after device A has pushed \<open>X.md\<close> with a content of \<open>n\<close> bytes at time 1000.\<close>

definition stored_X :: "nat \<Rightarrow> file_row" where
  "stored_X n = \<lparr>f_id = 2, userId = 1, deviceId = ''A'', sessionId = None, fileType = None,
      filePath = ''X.md'', content = replicate n CHR ''a'', contentHash = ''hash-a'',
      lastModified = 0, version = 1, syncedAt = 1000\<rparr>"

definition user_after_A :: "nat \<Rightarrow> user" where
  "user_after_A n = \<lparr>u_id = 1, storageUsed = int n, storageLimit = 100, lastSyncAt = 1000\<rparr>"

definition db_after_A :: "nat \<Rightarrow> db" where
  "db_after_A n = \<lparr>users = [user_after_A n],
      apiKeys = [\<lparr>ak_userId = 1, keyHash = ''key'', revokedAt = None\<rparr>],
      configFiles = [stored_X n], sessionFiles = [], syncConflicts = [], nextId = 3\<rparr>"

text \<open>The conflict that device B's push of another content for \<open>X.md\<close> leaves behind.\<close>

definition conflict_X :: conflict_row where
  "conflict_X = \<lparr>c_id = 3, c_userId = 1, c_filePath = ''X.md'', deviceAId = ''A'',
      deviceBId = ''B'', contentA = ''a'', contentB = ''b'', createdAt = 2000,
      resolvedAt = None, c_resolution = None\<rparr>"

definition db_conflict :: db where
  "db_conflict = \<lparr>users = [\<lparr>u_id = 1, storageUsed = 1, storageLimit = 100, lastSyncAt = 2000\<rparr>],
      apiKeys = [\<lparr>ak_userId = 1, keyHash = ''key'', revokedAt = None\<rparr>],
      configFiles = [stored_X 1], sessionFiles = [], syncConflicts = [conflict_X], nextId = 4\<rparr>"

text \<open>
  How a path comes to have its only row in the table that a push of it does not consult.
  Device A has pushed the session log \<open>projects/p1/s1.jsonl\<close>, device B has pushed
  another content for it, which left the conflict 3, and the row of device A has then been
  deleted (\<open>deleteFile\<close>): this is \<open>db_deleted\<close>. Resolving the conflict from there
  gives \<open>db_other_table\<close>: \<open>resolveConflict\<close> files the path under \<open>sessionFiles\<close> (it
  is none of the configuration paths), while \<open>categorizeFile\<close> sends a push of the path
  to \<open>configFiles\<close> (it is under neither \<open>todos/\<close> nor \<open>session-env/\<close>).
\<close>

definition conflict_session :: conflict_row where
  "conflict_session = \<lparr>c_id = 3, c_userId = 1, c_filePath = ''projects/p1/s1.jsonl'',
      deviceAId = ''A'', deviceBId = ''B'', contentA = ''a'', contentB = ''b'',
      createdAt = 2000, resolvedAt = None, c_resolution = None\<rparr>"


definition stored_log :: file_row where
  "stored_log = \<lparr>f_id = 4, userId = 1, deviceId = ''A'', sessionId = Some ''p1'',
      fileType = Some SessionEnv, filePath = ''projects/p1/s1.jsonl'', content = ''a'',
      contentHash = ''a'', lastModified = 3000, version = 1, syncedAt = 3000\<rparr>"

definition db_other_table :: db where
  "db_other_table = \<lparr>users = [\<lparr>u_id = 1, storageUsed = 0, storageLimit = 100, lastSyncAt = 2000\<rparr>],
      apiKeys = [\<lparr>ak_userId = 1, keyHash = ''key'', revokedAt = None\<rparr>],
      configFiles = [], sessionFiles = [stored_log],
      syncConflicts = [conflict_session\<lparr>resolvedAt := Some 3000,
                                        c_resolution := Some keep_local\<rparr>],
      nextId = 5\<rparr>"

text \<open>
  A fragment of \<open>JSON.parse\<close> and \<open>JSON.stringify\<close>: the texts used below with the values
  they denote, and the indented text of one document. Every other text counts as not
  JSON, no string converts to a number (the strings used below are dates), and the
  strings are ASCII.
\<close>

definition json_texts :: "(string \<times> jsval) list" where
  \<open>json_texts =
    [(''{"a":1}'', JObj [(''a'', JNum 1)]),
     (''{"a":2,"b":3}'', JObj [(''a'', JNum 2), (''b'', JNum 3)]),
     (''{"id":1,"timestamp":5}'', JObj [(''id'', JNum 1), (''timestamp'', JNum 5)]),
     (''{"id":1,"timestamp":9}'', JObj [(''id'', JNum 1), (''timestamp'', JNum 9)]),
     (''{"id":2,"timestamp":7}'', JObj [(''id'', JNum 2), (''timestamp'', JNum 7)]),
     (''{"id":0,"timestamp":5}'', JObj [(''id'', JNum 0), (''timestamp'', JNum 5)]),
     (''{"id":0,"timestamp":9}'', JObj [(''id'', JNum 0), (''timestamp'', JNum 9)]),
     (''{"uuid":"a","timestamp":"2025-01-02"}'',
        JObj [(''uuid'', JStr ''a''), (''timestamp'', JStr ''2025-01-02'')]),
     (''{"uuid":"b","timestamp":"2025-01-01"}'',
        JObj [(''uuid'', JStr ''b''), (''timestamp'', JStr ''2025-01-01'')]),
     (''{"id":1,"timestamp":-5}'', JObj [(''id'', JNum 1), (''timestamp'', JNum (- 5))]),
     (''{"id":1,"timestamp":0}'', JObj [(''id'', JNum 1), (''timestamp'', JNum 0)]),
     (''{"id":{"n":1}}'', JObj [(''id'', JObj [(''n'', JNum 1)])]),
     (''{"id":1,"ts":5}'', JObj [(''id'', JNum 1), (''ts'', JNum 5)]),
     (''{"id":1,"ts":9}'', JObj [(''id'', JNum 1), (''ts'', JNum 9)]),
     (''{"id":"abc","timestamp":5}'', JObj [(''id'', JStr ''abc''), (''timestamp'', JNum 5)])]\<close>

definition json_indented :: "(jsval \<times> string) list" where
  \<open>json_indented =
    [(JObj [(''a'', JNum 2), (''b'', JNum 3)],
      ''{'' @ nl @ ''  "a": 2,'' @ nl @ ''  "b": 3'' @ nl @ ''}'')]\<close>

definition json_env :: env where
  "json_env = \<lparr>sha256_hex = (\<lambda>s. s), rateLimit = (\<lambda>u. (True, 0)),
     JSON_parse = map_of json_texts,
     JSON_stringify = (\<lambda>indent v.
        if indent = 0
        then (case find (\<lambda>tv. snd tv = v) json_texts of Some tv \<Rightarrow> fst tv | None \<Rightarrow> [])
        else (case map_of json_indented v of Some t \<Rightarrow> t | None \<Rightarrow> [])),
     StringToNumber = (\<lambda>s. None), StringLess = ascii_less,
     ToPrimitive_obj = (\<lambda>v. None)\<rparr>"

text \<open>Conflicts over a document that parses on both sides, and over one that does not.\<close>

definition conflict_doc :: conflict_row where
  \<open>conflict_doc = \<lparr>c_id = 3, c_userId = 1, c_filePath = ''settings.json'', deviceAId = ''A'',
      deviceBId = ''B'', contentA = ''{"a":1}'', contentB = ''{"a":2,"b":3}'',
      createdAt = 2000, resolvedAt = None, c_resolution = None\<rparr>\<close>

definition conflict_broken :: conflict_row where
  \<open>conflict_broken = \<lparr>c_id = 4, c_userId = 1, c_filePath = ''todos/t1.json'',
      deviceAId = ''A'', deviceBId = ''B'', contentA = ''{"a":1}'', contentB = ''{"a":'',
      createdAt = 2000, resolvedAt = None, c_resolution = None\<rparr>\<close>

definition db_json :: db where
  "db_json = \<lparr>users = [example_user],
      apiKeys = [\<lparr>ak_userId = 1, keyHash = ''key'', revokedAt = None\<rparr>],
      configFiles = [], sessionFiles = [], syncConflicts = [conflict_doc, conflict_broken],
      nextId = 5\<rparr>"

text \<open>
  Conflicts over a file of records: two records with id 1 and one with id 2; and two
  records with id 0.
\<close>

definition conflict_log :: conflict_row where
  \<open>conflict_log = \<lparr>c_id = 5, c_userId = 1, c_filePath = ''history.jsonl'', deviceAId = ''A'',
      deviceBId = ''B'',
      contentA = ''{"id":1,"timestamp":5}'' @ nl @ ''{"id":2,"timestamp":7}'',
      contentB = ''{"id":1,"timestamp":9}'',
      createdAt = 2000, resolvedAt = None, c_resolution = None\<rparr>\<close>

definition conflict_zero :: conflict_row where
  \<open>conflict_zero = \<lparr>c_id = 6, c_userId = 1, c_filePath = ''history.jsonl'', deviceAId = ''A'',
      deviceBId = ''B'',
      contentA = ''{"id":0,"timestamp":5}'',
      contentB = ''{"id":0,"timestamp":9}'',
      createdAt = 2000, resolvedAt = None, c_resolution = None\<rparr>\<close>

text \<open>A conflict over a file with a line that is not JSON on side A and a record on side B.\<close>

definition conflict_raw :: conflict_row where
  \<open>conflict_raw = \<lparr>c_id = 7, c_userId = 1, c_filePath = ''history.jsonl'', deviceAId = ''A'',
      deviceBId = ''B'',
      contentA = ''not json'',
      contentB = ''{"id":2,"timestamp":7}'',
      createdAt = 2000, resolvedAt = None, c_resolution = None\<rparr>\<close>

definition db_jsonl :: db where
  "db_jsonl = \<lparr>users = [example_user],
      apiKeys = [\<lparr>ak_userId = 1, keyHash = ''key'', revokedAt = None\<rparr>],
      configFiles = [], sessionFiles = [],
      syncConflicts = [conflict_log, conflict_zero, conflict_raw],
      nextId = 8\<rparr>"

text \<open>Directory contents: \<open>n\<close> files \<open>1.ext\<close> to \<open>n.ext\<close>, the file \<open>i.ext\<close> modified at time \<open>i\<close>.\<close>

definition numbered_files :: "string \<Rightarrow> nat \<Rightarrow> (string \<times> fsnode) list" where
  "numbered_files ext n =
     map (\<lambda>i. (nat_to_dec i @ ext, File (nat_to_dec i) (int i))) [1..<Suc n]"

definition session_file :: "nat \<Rightarrow> string \<times> fsnode" where
  "session_file i = (''s'' @ nat_to_dec i @ ''.jsonl'', File (nat_to_dec i) (int i))"

text \<open>Twelve sessions in four project directories, and one agent file.\<close>

definition example_projects :: "(string \<times> fsnode) list" where
  "example_projects =
     [(''p1'', Dir 0 [session_file 1, session_file 5, session_file 9]),
      (''p2'', Dir 0 [session_file 2, session_file 6, session_file 10]),
      (''p3'', Dir 0 [session_file 3, session_file 7, session_file 11]),
      (''p4'', Dir 0 [session_file 4, session_file 8, session_file 12,
                     (''agent-7.jsonl'', File ''x'' 99)])]"

section \<open>Verification\<close>

subsection \<open>The sort\<close>

lemma mset_js_insert: "mset (js_insert le x xs) = add_mset x (mset xs)"
  by (induction xs) auto

lemma mset_js_sort_fold:
  "mset (foldl (\<lambda>acc x. js_insert le x acc) acc xs) = mset acc + mset xs"
  by (induction xs arbitrary: acc) (auto simp: mset_js_insert)

lemma mset_js_sort: "mset (js_sort le xs) = mset xs"
  by (simp add: js_sort_def mset_js_sort_fold)

lemma sorted_js_insert:
  assumes total: "\<And>a b. le a b \<or> le b a"
    and trans: "\<And>a b c. le a b \<Longrightarrow> le b c \<Longrightarrow> le a c"
  shows "sorted_wrt le xs \<Longrightarrow> sorted_wrt le (js_insert le x xs)"
proof (induction xs)
  case Nil
  then show ?case by simp
next
  case (Cons y ys)
  show ?case
  proof (cases "le y x")
    case True
    have "set (js_insert le x ys) = insert x (set ys)"
      using mset_js_insert [of le x ys] by (metis set_mset_add_mset_insert set_mset_mset)
    with True Cons show ?thesis by auto
  next
    case False
    then have xy: "le x y" using total by blast
    have "\<forall>z \<in> set ys. le x z" using Cons.prems xy trans by auto
    with False xy Cons.prems show ?thesis by auto
  qed
qed

lemma sorted_js_sort_fold:
  assumes total: "\<And>a b. le a b \<or> le b a"
    and trans: "\<And>a b c. le a b \<Longrightarrow> le b c \<Longrightarrow> le a c"
  shows "sorted_wrt le acc \<Longrightarrow> sorted_wrt le (foldl (\<lambda>acc x. js_insert le x acc) acc xs)"
proof (induction xs arbitrary: acc)
  case Nil
  then show ?case by simp
next
  case (Cons x xs)
  show ?case using Cons.IH [OF sorted_js_insert [OF total trans Cons.prems]] by simp
qed

lemma sorted_js_sort:
  assumes total: "\<And>a b. le a b \<or> le b a"
    and trans: "\<And>a b c. le a b \<Longrightarrow> le b c \<Longrightarrow> le a c"
  shows "sorted_wrt le (js_sort le xs)"
proof -
  have "sorted_wrt le []" by simp
  from sorted_js_sort_fold [of le "[]" xs, OF total trans this]
  show ?thesis by (simp add: js_sort_def)
qed

lemma take_drop_sorted:
  "sorted_wrt le xs \<Longrightarrow> a \<in> set (take n xs) \<Longrightarrow> b \<in> set (drop n xs) \<Longrightarrow> le a b"
  by (metis append_take_drop_id sorted_wrt_append)

text \<open>
  Sorting by a key, newest first, and truncating to \<open>n\<close> splits a list into a window of
  \<open>n\<close> elements (all of them, if there are fewer) and a rest none of whose elements is
  newer than an element of the window.
\<close>

lemma window_props:
  fixes f :: "'a \<Rightarrow> int" and xs :: "'a list"
  defines "s \<equiv> js_sort (\<lambda>a b. f b - f a \<le> 0) xs"
  shows "mset (take n s @ drop n s) = mset xs"
    and "length (take n s) = min n (length xs)"
    and "\<forall>a \<in> set (take n s). \<forall>b \<in> set (drop n s). f b \<le> f a"
proof -
  show "mset (take n s @ drop n s) = mset xs" by (simp add: s_def mset_js_sort)
  have "length s = length xs" using mset_js_sort [of "\<lambda>a b. f b - f a \<le> 0" xs]
    by (metis s_def size_mset)
  then show "length (take n s) = min n (length xs)" by simp
  have "sorted_wrt (\<lambda>a b. f b - f a \<le> 0) s"
    unfolding s_def by (rule sorted_js_sort) auto
  then show "\<forall>a \<in> set (take n s). \<forall>b \<in> set (drop n s). f b \<le> f a"
    using take_drop_sorted [of "\<lambda>a b. f b - f a \<le> 0" s] by fastforce
qed

subsection \<open>Push\<close>

lemmas push_eval =
  pushSync_def example_env_def db_new_def validateApiKeyInternal_def hashApiKey_def
  get_user_def pushFile_def categorizeFile_def endsWith_def startsWith_def blob_size_def
  first_by_user_and_path_def table_rows_def set_table_rows_def insert_file_def
  patch_user_def split_def index_opt_def or_unknown_def Let_def pfile_def example_user_def
  stored_X_def db_after_A_def user_after_A_def insert_conflict_def patch_file_def
  conflict_X_def db_conflict_def js_add_def round_double_def db_other_table_def
  stored_log_def db_two_files_def
  unique_ids_def





lemma get_user_id: "get_user d uid = Some usr \<Longrightarrow> u_id usr = uid"
  by (auto simp: get_user_def find_Some_iff)

lemma validate_cases:
  assumes "validateApiKeyInternal e d apiKey = Some usr"
  obtains r where "find (\<lambda>k. keyHash k = hashApiKey e apiKey) (apiKeys d) = Some r"
    and "revokedAt r = None \<or> revokedAt r = Some 0"
    and "get_user d (ak_userId r) = Some usr"
  using assms
  by (auto simp: validateApiKeyInternal_def split: option.splits if_splits)

lemma validate_user_id:
  assumes "validateApiKeyInternal e d apiKey = Some usr"
  shows "get_user d (u_id usr) = Some usr"
proof -
  from assms obtain r :: apiKey_row where r: "get_user d (ak_userId r) = Some usr"
    by (rule validate_cases)
  from get_user_id [OF r] r show ?thesis by simp
qed


lemma validate_after:
  assumes v: "validateApiKeyInternal e d apiKey = Some usr"
    and k: "apiKeys d' = apiKeys d" and u: "get_user d' (u_id usr) = Some usr'"
  shows "validateApiKeyInternal e d' apiKey = Some usr'"
proof -
  from v obtain r where r: "find (\<lambda>k. keyHash k = hashApiKey e apiKey) (apiKeys d) = Some r"
    "revokedAt r = None \<or> revokedAt r = Some 0" "get_user d (ak_userId r) = Some usr"
    by (rule validate_cases)
  from get_user_id [OF r(3)] have "ak_userId r = u_id usr" by simp
  with r(1,2) k u show ?thesis
    by (auto simp: validateApiKeyInternal_def)
qed





























text \<open>
  C2 at a failing input. A user with 0 bytes used pushes two new files of 5 bytes each in
  one batch. Both rows are inserted and both outcomes are \<open>Success\<close>, but the counter ends
  at 5, not at 10: every iteration adds the size of its file to the \<open>storageUsed\<close> that
  was read before the loop.
\<close>

theorem push_two_inserts_counter:
  "pushSync example_env db_new ''key'' ''A''
     [pfile ''a.md'' ''aaaaa'' ''h1'', pfile ''b.md'' ''bbbbb'' ''h2''] 1000 =
   Inr (\<lparr>users = [\<lparr>u_id = 1, storageUsed = 5, storageLimit = 100, lastSyncAt = 1000\<rparr>],
         apiKeys = [\<lparr>ak_userId = 1, keyHash = ''key'', revokedAt = None\<rparr>],
         configFiles =
           [\<lparr>f_id = 2, userId = 1, deviceId = ''A'', sessionId = None, fileType = None,
             filePath = ''a.md'', content = ''aaaaa'', contentHash = ''h1'',
             lastModified = 0, version = 1, syncedAt = 1000\<rparr>,
            \<lparr>f_id = 3, userId = 1, deviceId = ''A'', sessionId = None, fileType = None,
             filePath = ''b.md'', content = ''bbbbb'', contentHash = ''h2'',
             lastModified = 0, version = 1, syncedAt = 1000\<rparr>],
         sessionFiles = [], syncConflicts = [], nextId = 4\<rparr>,
        [\<lparr>r_filePath = ''a.md'', r_status = Success, r_conflictId = None, r_message = None\<rparr>,
         \<lparr>r_filePath = ''b.md'', r_status = Success, r_conflictId = None, r_message = None\<rparr>])"
  by (simp add: push_eval)




subsection \<open>The credential gate\<close>

text \<open>
  C8, as the code has it. Under a key that \<open>validateApiKeyInternal\<close> refuses, \<open>pushSync\<close>
  and \<open>pullSync\<close> throw \<open>Invalid API key\<close> before anything else happens (a thrown
  mutation leaves no state behind), while \<open>subscribeToChanges\<close> returns the empty
  result, with no files and no conflicts, without reading the catalog.
\<close>

theorem invalid_key_outcomes:
  assumes "validateApiKeyInternal e d apiKey = None"
  shows "pushSync e d apiKey dev files now = Inl InvalidApiKey
         \<and> pullSync e d apiKey dev since = Inl InvalidApiKey
         \<and> subscribeToChanges e d apiKey dev = Inr ([], [])"
  using assms by (simp add: pushSync_def pullSync_def subscribeToChanges_def)

theorem invalid_key_outcomes_witness:
  "validateApiKeyInternal example_env db_conflict ''stolen'' = None
   \<and> pushSync example_env db_conflict ''stolen'' ''B'' [pfile ''X.md'' ''b'' ''hash-b''] 3000
       = Inl InvalidApiKey
   \<and> pullSync example_env db_conflict ''stolen'' ''B'' None = Inl InvalidApiKey
   \<and> subscribeToChanges example_env db_conflict ''stolen'' ''B'' = Inr ([], [])"
proof -
  have v: "validateApiKeyInternal example_env db_conflict ''stolen'' = None"
    by (simp add: push_eval)
  show ?thesis
    using v invalid_key_outcomes [OF v, of "''B''" "[pfile ''X.md'' ''b'' ''hash-b'']" 3000 None]
    by simp
qed

text \<open>
  C8 as stated fails for the change feed. The catalog holds a row of device A and an
  unresolved conflict; under the valid key device B's feed shows both, under an unknown
  key the feed is a normal, empty result and not an error.
\<close>

theorem change_feed_counterexample:
  "validateApiKeyInternal example_env db_conflict ''stolen'' = None
   \<and> subscribeToChanges example_env db_conflict ''stolen'' ''B'' = Inr ([], [])
   \<and> subscribeToChanges example_env db_conflict ''key'' ''B'' =
       Inr ([\<lparr>ch_id = 2, ch_filePath = ''X.md'', ch_contentHash = ''hash-a'',
               ch_lastModified = 0, ch_version = 1, ch_deviceId = ''A''\<rparr>],
            [\<lparr>oc_id = 3, oc_filePath = ''X.md'', oc_deviceAId = ''A'', oc_deviceBId = ''B'',
              oc_createdAt = 2000\<rparr>])"
  by (simp add: push_eval subscribeToChanges_def by_user_def js_sort_def)

subsection \<open>Resolution by side\<close>

text \<open>A resolution leaves the users, the keys and the two sides of the conflict as they are, so
  that resolving the same conflict again returns the same content.\<close>

lemma find_map_id:
  assumes "find (\<lambda>c. c_id c = i) cs = Some c" and "\<And>x. c_id (g x) = c_id x"
  shows "find (\<lambda>c. c_id c = i) (map (\<lambda>c. if c_id c = i then g c else c) cs) = Some (g c)"
  using assms by (induction cs) (auto split: if_splits)

lemma finalContent_resolved:
  "finalContent e (c\<lparr>resolvedAt := t, c_resolution := r\<rparr>) res mc dev = finalContent e c res mc dev"
  by (cases res) (simp_all add: finalContent_def)

lemma resolveConflict_result:
  assumes key: "validateApiKeyInternal e d apiKey = Some usr"
    and found: "find (\<lambda>c. c_id c = conflictId) (syncConflicts d) = Some conflict"
    and owner: "c_userId conflict = u_id usr"
    and fin: "finalContent e conflict res mc dev = Inr c"
  shows "\<exists>d'. resolveConflict e d apiKey conflictId res mc dev now = Inr (d', c)
           \<and> apiKeys d' = apiKeys d \<and> users d' = users d
           \<and> syncConflicts d' = map (\<lambda>c. if c_id c = conflictId
                                            then c\<lparr>resolvedAt := Some now, c_resolution := Some res\<rparr>
                                            else c) (syncConflicts d)"
  using key found owner fin
  by (auto simp: resolveConflict_def Let_def patch_file_def insert_file_def set_table_rows_def
      split: option.splits tableName.splits)

lemma resolve_again:
  assumes key: "validateApiKeyInternal e d apiKey = Some usr"
    and found: "find (\<lambda>c. c_id c = conflictId) (syncConflicts d) = Some conflict"
    and owner: "c_userId conflict = u_id usr"
    and fin: "finalContent e conflict res mc dev = Inr c"
  shows "\<exists>d' d''. resolveConflict e d apiKey conflictId res mc dev now = Inr (d', c)
           \<and> resolveConflict e d' apiKey conflictId res mc dev now' = Inr (d'', c)"
proof -
  from resolveConflict_result [OF key found owner fin, of now] obtain d' where
    r: "resolveConflict e d apiKey conflictId res mc dev now = Inr (d', c)"
    and k: "apiKeys d' = apiKeys d" and u: "users d' = users d"
    and cs: "syncConflicts d' = map (\<lambda>c. if c_id c = conflictId
                                            then c\<lparr>resolvedAt := Some now, c_resolution := Some res\<rparr>
                                            else c) (syncConflicts d)"
    by blast
  let ?c' = "conflict\<lparr>resolvedAt := Some now, c_resolution := Some res\<rparr>"
  have gu: "get_user d' (u_id usr) = Some usr"
    using validate_user_id [OF key] u by (simp add: get_user_def)
  have key': "validateApiKeyInternal e d' apiKey = Some usr"
    by (rule validate_after [OF key k gu])
  have found': "find (\<lambda>c. c_id c = conflictId) (syncConflicts d') = Some ?c'"
    unfolding cs by (rule find_map_id [OF found]) simp
  have owner': "c_userId ?c' = u_id usr" using owner by simp
  have fin': "finalContent e ?c' res mc dev = Inr c"
    using fin by (simp add: finalContent_resolved)
  from resolveConflict_result [OF key' found' owner' fin', of now'] r show ?thesis by blast
qed

text \<open>
  C10. For every conflict of the user and every resolving device id, \<open>keep_local\<close>
  compares the device id with \<open>deviceAId\<close> only: the final content is \<open>contentA\<close> exactly
  when \<open>deviceAId\<close> is the resolving device, and \<open>contentB\<close> otherwise; \<open>keep_remote\<close> is
  the opposite. A device id that matches neither side is not rejected: the resolution
  succeeds, \<open>keep_local\<close> with \<open>contentB\<close> and \<open>keep_remote\<close> with \<open>contentA\<close>.
\<close>

theorem keep_local_compares_deviceA:
  assumes key: "validateApiKeyInternal e d apiKey = Some usr"
    and found: "find (\<lambda>c. c_id c = conflictId) (syncConflicts d) = Some conflict"
    and owner: "c_userId conflict = u_id usr"
  shows "(\<exists>d'. resolveConflict e d apiKey conflictId keep_local manualContent dev now =
                Inr (d', if deviceAId conflict = dev then contentA conflict
                         else contentB conflict))
       \<and> (\<exists>d'. resolveConflict e d apiKey conflictId keep_remote manualContent dev now =
                Inr (d', if deviceAId conflict = dev then contentB conflict
                         else contentA conflict))
       \<and> (deviceAId conflict \<noteq> dev \<and> deviceBId conflict \<noteq> dev \<longrightarrow>
            (\<exists>d'. resolveConflict e d apiKey conflictId keep_local manualContent dev now =
                    Inr (d', contentB conflict))
          \<and> (\<exists>d'. resolveConflict e d apiKey conflictId keep_remote manualContent dev now =
                    Inr (d', contentA conflict)))"
  using key found owner
  by (simp add: resolveConflict_def finalContent_def Let_def)

theorem keep_local_compares_deviceA_witness:
  "validateApiKeyInternal example_env db_conflict ''key''
     = Some \<lparr>u_id = 1, storageUsed = 1, storageLimit = 100, lastSyncAt = 2000\<rparr>
   \<and> find (\<lambda>c. c_id c = 3) (syncConflicts db_conflict) = Some conflict_X
   \<and> deviceAId conflict_X \<noteq> ''C'' \<and> deviceBId conflict_X \<noteq> ''C''
   \<and> (\<exists>d'. resolveConflict example_env db_conflict ''key'' 3 keep_local None ''C'' 3000 =
              Inr (d', ''b''))
   \<and> (\<exists>d'. resolveConflict example_env db_conflict ''key'' 3 keep_remote None ''C'' 3000 =
              Inr (d', ''a''))
   \<and> (\<exists>d'. resolveConflict example_env db_conflict ''key'' 3 keep_local None ''A'' 3000 =
              Inr (d', ''a''))"
proof -
  have k: "validateApiKeyInternal example_env db_conflict ''key''
             = Some \<lparr>u_id = 1, storageUsed = 1, storageLimit = 100, lastSyncAt = 2000\<rparr>"
    by (simp add: push_eval)
  have f: "find (\<lambda>c. c_id c = 3) (syncConflicts db_conflict) = Some conflict_X"
    by (simp add: push_eval)
  have ow: "c_userId conflict_X
              = u_id \<lparr>u_id = 1, storageUsed = 1, storageLimit = 100, lastSyncAt = 2000\<rparr>"
    by (simp add: push_eval)
  have fields: "deviceAId conflict_X = ''A''" "deviceBId conflict_X = ''B''"
    "contentA conflict_X = ''a''" "contentB conflict_X = ''b''"
    by (simp_all add: conflict_X_def)
  show ?thesis
    using k f keep_local_compares_deviceA [OF k f ow, of None "''C''" 3000]
      keep_local_compares_deviceA [OF k f ow, of None "''A''" 3000]
    by (simp add: fields)
qed

subsection \<open>Merging documents\<close>

lemma map_of_insert_index:
  "map_of (insert_index i k v kvs) k' = (if k' = k then Some v else map_of kvs k')"
  if "map_of kvs k = None"
  using that by (induction kvs) (auto split: option.splits if_splits)

lemma map_of_replace:
  "map_of (map (\<lambda>kv. if fst kv = k then (k, v) else kv) kvs) k' =
     (if k' = k \<and> map_of kvs k \<noteq> None then Some v else map_of kvs k')"
  by (induction kvs) auto

lemma map_of_snoc:
  "map_of kvs k = None
     \<Longrightarrow> map_of (kvs @ [(k, v)]) k' = (if k' = k then Some v else map_of kvs k')"
  by (induction kvs) auto

lemma map_of_obj_set:
  "map_of (obj_set k v kvs) k' = (if k' = k then Some v else map_of kvs k')"
proof (cases "map_of kvs k")
  case None
  then show ?thesis
    by (simp add: obj_set_def map_of_insert_index map_of_snoc del: map_of_append
        split: option.splits)
next
  case (Some w)
  then show ?thesis
    by (simp add: obj_set_def map_of_replace)
qed

lemma map_of_spread_fold:
  "map_of (foldl (\<lambda>acc kv. obj_set (fst kv) (snd kv) acc) acc ps) k =
     (case map_of (rev ps) k of Some v \<Rightarrow> Some v | None \<Rightarrow> map_of acc k)"
  by (induction ps arbitrary: acc) (auto simp: map_of_obj_set split: option.splits)

lemma map_of_spread:
  "map_of (spread target src) k =
     (case own_prop src k of Some v \<Rightarrow> Some v | None \<Rightarrow> map_of target k)"
  by (simp add: spread_def own_prop_def map_of_spread_fold)

lemma fst_insert_index:
  "set (map fst (insert_index i k v kvs)) = insert k (set (map fst kvs))"
  by (induction kvs) (auto split: option.splits)

lemma distinct_insert_index:
  "distinct (map fst kvs) \<Longrightarrow> k \<notin> set (map fst kvs)
     \<Longrightarrow> distinct (map fst (insert_index i k v kvs))"
proof (induction kvs)
  case Nil
  then show ?case by simp
next
  case (Cons a kvs)
  have "fst a \<notin> fst ` set (insert_index i k v kvs)"
    using Cons.prems fst_insert_index [of i k v kvs] by auto
  with Cons show ?case by (auto split: option.splits)
qed

lemma fst_replace:
  "map fst (map (\<lambda>kv. if fst kv = k then (k, v) else kv) kvs) = map fst kvs"
  by (induction kvs) auto

lemma distinct_obj_set:
  assumes "distinct (map fst kvs)"
  shows "distinct (map fst (obj_set k v kvs))"
proof (cases "map_of kvs k")
  case None
  then have "k \<notin> set (map fst kvs)"
    by (simp add: map_of_eq_None_iff)
  with assms None show ?thesis
    by (simp add: obj_set_def distinct_insert_index split: option.splits)
next
  case (Some w)
  have "map fst (map (\<lambda>kv. if fst kv = k then (k, v) else kv) kvs) = map fst kvs"
    by (rule fst_replace)
  with assms Some show ?thesis
    by (simp add: obj_set_def del: map_map)
qed

lemma distinct_spread_fold:
  "distinct (map fst acc)
     \<Longrightarrow> distinct (map fst (foldl (\<lambda>acc kv. obj_set (fst kv) (snd kv) acc) acc ps))"
  by (induction ps arbitrary: acc) (auto simp: distinct_obj_set)

lemma distinct_spread: "distinct (map fst target) \<Longrightarrow> distinct (map fst (spread target src))"
  by (simp add: spread_def distinct_spread_fold)

text \<open>
  C5. For every conflict of the user over a path ending in \<open>.json\<close>, \<open>keep_both\<close> returns
  \<open>mergeJSON\<close> of the two contents, and a second run on the same conflict, in the
  database that the first run leaves, returns the same text. When both sides parse, the
  result is the serialisation (indent 2) of one object with distinct property names in
  which every name has the value of side B if side B has the name, and the value of side
  A otherwise. When either side fails to parse, the result is the concatenation of both
  sides between conflict markers, and not a failure.
\<close>

theorem keep_both_json_merge:
  assumes key: "validateApiKeyInternal e d apiKey = Some usr"
    and found: "find (\<lambda>c. c_id c = conflictId) (syncConflicts d) = Some conflict"
    and owner: "c_userId conflict = u_id usr"
    and json: "endsWith (c_filePath conflict) ''.json''"
  shows "(\<exists>d' d''. resolveConflict e d apiKey conflictId keep_both manualContent dev now =
                Inr (d', mergeJSON e (contentA conflict) (contentB conflict))
              \<and> resolveConflict e d' apiKey conflictId keep_both manualContent dev now' =
                Inr (d'', mergeJSON e (contentA conflict) (contentB conflict)))
    \<and> (\<forall>a b. JSON_parse e (contentA conflict) = Some a
              \<and> JSON_parse e (contentB conflict) = Some b \<longrightarrow>
          (\<exists>merged. mergeJSON e (contentA conflict) (contentB conflict)
                       = JSON_stringify e 2 (JObj merged)
             \<and> distinct (map fst merged)
             \<and> (\<forall>k. map_of merged k =
                     (case own_prop b k of Some v \<Rightarrow> Some v | None \<Rightarrow> own_prop a k))))
    \<and> (JSON_parse e (contentA conflict) = None \<or> JSON_parse e (contentB conflict) = None \<longrightarrow>
          mergeJSON e (contentA conflict) (contentB conflict) =
            ''<<<<<<< VERSION A'' @ nl @ contentA conflict @ nl @ ''======='' @ nl
              @ contentB conflict @ nl @ ''>>>>>>> VERSION B'')"
proof -
  have "finalContent e conflict keep_both manualContent dev
          = Inr (mergeJSON e (contentA conflict) (contentB conflict))"
    using json by (simp add: finalContent_def)
  from resolve_again [OF key found owner this]
  have 1: "\<exists>d' d''. resolveConflict e d apiKey conflictId keep_both manualContent dev now =
                Inr (d', mergeJSON e (contentA conflict) (contentB conflict))
              \<and> resolveConflict e d' apiKey conflictId keep_both manualContent dev now' =
                Inr (d'', mergeJSON e (contentA conflict) (contentB conflict))" .
  have 2: "\<exists>merged. mergeJSON e cA cB = JSON_stringify e 2 (JObj merged)
             \<and> distinct (map fst merged)
             \<and> (\<forall>k. map_of merged k =
                     (case own_prop b k of Some v \<Rightarrow> Some v | None \<Rightarrow> own_prop a k))"
    if "JSON_parse e cA = Some a" "JSON_parse e cB = Some b" for cA cB a b
  proof (intro exI conjI allI)
    show "mergeJSON e cA cB = JSON_stringify e 2 (JObj (spread (spread [] a) b))"
      using that by (simp add: mergeJSON_def)
    show "distinct (map fst (spread (spread [] a) b))"
      by (simp add: distinct_spread)
    show "map_of (spread (spread [] a) b) k =
            (case own_prop b k of Some v \<Rightarrow> Some v | None \<Rightarrow> own_prop a k)" for k
      by (simp add: map_of_spread split: option.splits)
  qed
  have 3: "mergeJSON e cA cB =
             ''<<<<<<< VERSION A'' @ nl @ cA @ nl @ ''======='' @ nl @ cB @ nl
               @ ''>>>>>>> VERSION B''"
    if "JSON_parse e cA = None \<or> JSON_parse e cB = None" for cA cB
    using that by (auto simp: mergeJSON_def Let_def split: option.splits)
  show ?thesis using 1 2 3 by blast
qed

lemmas json_eval =
  json_env_def json_texts_def json_indented_def conflict_doc_def conflict_broken_def
  db_json_def example_user_def validateApiKeyInternal_def hashApiKey_def get_user_def
  endsWith_def

text \<open>
  The example of the specification, \<open>{"a":1}\<close> against \<open>{"a":2,"b":3}\<close>, and a conflict
  whose side B is cut off in the middle.
\<close>

theorem keep_both_json_merge_witness:
  \<open>validateApiKeyInternal json_env db_json ''key'' = Some example_user
   \<and> find (\<lambda>c. c_id c = 3) (syncConflicts db_json) = Some conflict_doc
   \<and> find (\<lambda>c. c_id c = 4) (syncConflicts db_json) = Some conflict_broken
   \<and> endsWith (c_filePath conflict_doc) ''.json''
   \<and> endsWith (c_filePath conflict_broken) ''.json''
   \<and> JSON_parse json_env (contentA conflict_doc) = Some (JObj [(''a'', JNum 1)])
   \<and> JSON_parse json_env (contentB conflict_doc)
       = Some (JObj [(''a'', JNum 2), (''b'', JNum 3)])
   \<and> JSON_parse json_env (contentB conflict_broken) = None
   \<and> (\<exists>d' d''. resolveConflict json_env db_json ''key'' 3 keep_both None ''B'' 3000 =
              Inr (d', ''{'' @ nl @ ''  "a": 2,'' @ nl @ ''  "b": 3'' @ nl @ ''}'')
            \<and> resolveConflict json_env d' ''key'' 3 keep_both None ''B'' 4000 =
              Inr (d'', ''{'' @ nl @ ''  "a": 2,'' @ nl @ ''  "b": 3'' @ nl @ ''}''))
   \<and> (\<exists>d'. resolveConflict json_env db_json ''key'' 4 keep_both None ''B'' 3000 =
              Inr (d', ''<<<<<<< VERSION A'' @ nl @ ''{"a":1}'' @ nl @ ''======='' @ nl
                       @ ''{"a":'' @ nl @ ''>>>>>>> VERSION B''))\<close>
proof -
  have k: "validateApiKeyInternal json_env db_json ''key'' = Some example_user"
    by (simp add: json_eval)
  have f3: "find (\<lambda>c. c_id c = 3) (syncConflicts db_json) = Some conflict_doc"
    and f4: "find (\<lambda>c. c_id c = 4) (syncConflicts db_json) = Some conflict_broken"
    by (simp_all add: json_eval)
  have o3: "c_userId conflict_doc = u_id example_user"
    and o4: "c_userId conflict_broken = u_id example_user"
    by (simp_all add: json_eval)
  have j3: "endsWith (c_filePath conflict_doc) ''.json''"
    and j4: "endsWith (c_filePath conflict_broken) ''.json''"
    by (simp_all add: json_eval)
  have m3: \<open>mergeJSON json_env (contentA conflict_doc) (contentB conflict_doc)
             = ''{'' @ nl @ ''  "a": 2,'' @ nl @ ''  "b": 3'' @ nl @ ''}''\<close>
    by (simp add: json_eval mergeJSON_def spread_def obj_set_def array_index_def
        is_digit_def)
  have p4: "JSON_parse json_env (contentB conflict_broken) = None"
    by (simp add: json_eval)
  have c4: \<open>contentA conflict_broken = ''{"a":1}''\<close> \<open>contentB conflict_broken = ''{"a":''\<close>
    by (simp_all add: json_eval)
  have p3: "JSON_parse json_env (contentA conflict_doc) = Some (JObj [(''a'', JNum 1)])"
    "JSON_parse json_env (contentB conflict_doc)
       = Some (JObj [(''a'', JNum 2), (''b'', JNum 3)])"
    by (simp_all add: json_eval)
  from keep_both_json_merge [OF k f3 o3 j3, of None "''B''" 3000 4000]
  have r3: \<open>\<exists>d' d''. resolveConflict json_env db_json ''key'' 3 keep_both None ''B'' 3000 =
              Inr (d', ''{'' @ nl @ ''  "a": 2,'' @ nl @ ''  "b": 3'' @ nl @ ''}'')
            \<and> resolveConflict json_env d' ''key'' 3 keep_both None ''B'' 4000 =
              Inr (d'', ''{'' @ nl @ ''  "a": 2,'' @ nl @ ''  "b": 3'' @ nl @ ''}'')\<close>
    unfolding m3 by (rule conjunct1)
  from keep_both_json_merge [OF k f4 o4 j4, of None "''B''" 3000 4000] p4
  have r4: \<open>\<exists>d'. resolveConflict json_env db_json ''key'' 4 keep_both None ''B'' 3000 =
              Inr (d', ''<<<<<<< VERSION A'' @ nl @ ''{"a":1}'' @ nl @ ''======='' @ nl
                       @ ''{"a":'' @ nl @ ''>>>>>>> VERSION B'')\<close>
    unfolding c4 by metis
  from k f3 f4 j3 j4 p3 p4 r3 r4 show ?thesis by blast
qed

subsection \<open>Merging files of records\<close>

lemma js_get_obj: "js_get (JObj kvs) k = Some (field kvs k)"
  by (simp add: field_def)

lemma or_chain_identity:
  "js_or (js_or (js_or (field kvs ''id'') (field kvs ''uuid'')) (field kvs ''timestamp'')) (JStr line)
     = record_identity line kvs"
  by (simp add: js_or_def record_identity_def)


lemma map_set_keys: "fst ` set (map_set k v m) \<subseteq> insert k (fst ` set m)"
  by (induction m) auto

lemma keys_apart_map_set: "keys_apart m \<Longrightarrow> keys_apart (map_set k v m)"
proof (induction m)
  case Nil then show ?case by simp
next
  case (Cons kv m)
  show ?case
  proof (cases "same_value_zero (fst kv) k")
    case True
    with Cons.prems show ?thesis by simp
  next
    case False
    have "\<not> same_value_zero (fst kv) (fst kv')" if "kv' \<in> set (map_set k v m)" for kv'
    proof -
      from that map_set_keys [of k v m] have "fst kv' = k \<or> fst kv' \<in> fst ` set m" by auto
      with False Cons.prems show ?thesis by (auto simp: list_all_iff)
    qed
    with False Cons show ?thesis by (simp add: list_all_iff)
  qed
qed

lemma keys_apart_step: "keys_apart m \<Longrightarrow> keys_apart (jsonl_step e m line)"
  by (auto simp: jsonl_step_def Let_def keys_apart_map_set split: option.splits bool.splits)

lemma keys_apart_fold: "keys_apart m \<Longrightarrow> keys_apart (foldl (jsonl_step e) m ls)"
  by (induction ls arbitrary: m) (auto simp: keys_apart_step)

lemma keys_apart_nth:
  "keys_apart m \<Longrightarrow> i < j \<Longrightarrow> j < length m \<Longrightarrow> \<not> same_value_zero (fst (m ! i)) (fst (m ! j))"
proof (induction m arbitrary: i j)
  case Nil then show ?case by simp
next
  case (Cons kv m)
  show ?case
  proof (cases i)
    case 0
    with Cons.prems obtain j' where "j = Suc j'" "j' < length m" by (cases j) auto
    with 0 Cons.prems show ?thesis by (auto simp: list_all_iff)
  next
    case (Suc i')
    with Cons.prems obtain j' where "j = Suc j'" "i' < j'" "j' < length m" by (cases j) auto
    with Suc Cons show ?thesis by auto
  qed
qed

lemma map_set_absent: "\<not> map_has m k \<Longrightarrow> map_set k v m = m @ [(k, v)]"
  by (induction m) (auto simp: map_has_def)

lemma map_set_present:
  assumes "map_has m k"
  shows "\<exists>m1 k0 v0 m2. m = m1 @ (k0, v0) # m2 \<and> same_value_zero k0 k
           \<and> map_set k v m = m1 @ (k0, v) # m2 \<and> map_get m k = v0"
  using assms
proof (induction m)
  case Nil then show ?case by (simp add: map_has_def)
next
  case (Cons kv m)
  show ?case
  proof (cases "same_value_zero (fst kv) k")
    case True
    have "kv # m = [] @ (fst kv, snd kv) # m \<and> same_value_zero (fst kv) k
           \<and> map_set k v (kv # m) = [] @ (fst kv, v) # m \<and> map_get (kv # m) k = snd kv"
      using True by (simp add: map_get_def)
    then show ?thesis by blast
  next
    case False
    with Cons.prems have "map_has m k" by (simp add: map_has_def)
    from Cons.IH [OF this] obtain m1 k0 v0 m2 where
      *: "m = m1 @ (k0, v0) # m2" "same_value_zero k0 k"
         "map_set k v m = m1 @ (k0, v) # m2" "map_get m k = v0" by blast
    have "kv # m = (kv # m1) @ (k0, v0) # m2 \<and> same_value_zero k0 k
           \<and> map_set k v (kv # m) = (kv # m1) @ (k0, v) # m2 \<and> map_get (kv # m) k = v0"
      using False * by (simp add: map_get_def)
    then show ?thesis by blast
  qed
qed

lemma svz_primitive: "same_value_zero a b \<Longrightarrow> a = b"
  by (cases a; cases b) auto

lemma plain_recordD:
  assumes "plain_record e line"
  obtains kvs where "JSON_parse e line = Some (JObj kvs)"
    and "is_primitive (record_identity line kvs)"
    and "0 \<le> record_ts (JObj kvs)"
    and "field kvs ''timestamp'' = JUndefined \<and> record_ts (JObj kvs) = 0
         \<or> field kvs ''timestamp'' = JNum (record_ts (JObj kvs))"
proof -
  from assms obtain kvs where p: "JSON_parse e line = Some (JObj kvs)"
    by (auto simp: plain_record_def split: option.splits jsval.splits)
  from assms p have prim: "is_primitive (record_identity line kvs)"
    by (simp add: plain_record_def)
  from assms p have ts: "map_of kvs ''timestamp'' = None \<or> (\<exists>n. map_of kvs ''timestamp'' = Some (JNum n) \<and> 0 \<le> n)"
    by (auto simp: plain_record_def split: option.splits jsval.splits)
  then have "0 \<le> record_ts (JObj kvs)"
    and "field kvs ''timestamp'' = JUndefined \<and> record_ts (JObj kvs) = 0
         \<or> field kvs ''timestamp'' = JNum (record_ts (JObj kvs))"
    by (auto simp: record_ts_def field_def)
  with p prim show ?thesis using that by blast
qed

text \<open>The comparison of the loop on two plain records.\<close>
lemma newer_plain:
  assumes t: "t = JUndefined \<and> n = 0 \<or> t = JNum n" and n: "0 \<le> n"
    and te: "te = JUndefined \<and> x = 0 \<or> te = JNum x" and that: "0 \<le> x"
  shows "(if truthy t
          then (case js_gt e t (js_or te (JNum 0)) of
                  None \<Rightarrow> c | Some True \<Rightarrow> a | Some False \<Rightarrow> b)
          else b) = (if x < n then a else b)"
  using t te n that
  by (auto simp: js_gt_def js_or_def to_primitive_def prim_to_number_def)

lemma step_plain_absent:
  assumes "JSON_parse e line = Some (JObj kvs)"
    and "\<not> map_has m (record_identity line kvs)"
  shows "jsonl_step e m line = m @ [(record_identity line kvs, JObj kvs)]"
  using assms
  by (simp add: jsonl_step_def Let_def or_chain_identity [symmetric] field_def map_set_absent)

lemma step_plain_present:
  assumes parse: "JSON_parse e line = Some (JObj kvs)"
    and has: "map_has m (record_identity line kvs)"
    and ex: "map_get m (record_identity line kvs) = JObj kvs0"
    and t: "field kvs ''timestamp'' = JUndefined \<and> record_ts (JObj kvs) = 0
            \<or> field kvs ''timestamp'' = JNum (record_ts (JObj kvs))"
    and n: "0 \<le> record_ts (JObj kvs)"
    and te: "field kvs0 ''timestamp'' = JUndefined \<and> record_ts (JObj kvs0) = 0
             \<or> field kvs0 ''timestamp'' = JNum (record_ts (JObj kvs0))"
    and x: "0 \<le> record_ts (JObj kvs0)"
  shows "jsonl_step e m line =
           (if record_ts (JObj kvs0) < record_ts (JObj kvs)
            then map_set (record_identity line kvs) (JObj kvs) m else m)"
proof -
  have "jsonl_step e m line =
          (if truthy (field kvs ''timestamp'')
           then (case js_gt e (field kvs ''timestamp'') (js_or (field kvs0 ''timestamp'') (JNum 0)) of
                   None \<Rightarrow> map_set (JStr line) (JStr line) m
                 | Some True \<Rightarrow> map_set (record_identity line kvs) (JObj kvs) m
                 | Some False \<Rightarrow> m)
           else m)"
    using parse has ex
    by (simp add: jsonl_step_def Let_def js_get_obj or_chain_identity del: js_get.simps)
  also have "\<dots> = (if record_ts (JObj kvs0) < record_ts (JObj kvs)
                    then map_set (record_identity line kvs) (JObj kvs) m else m)"
    by (rule newer_plain [OF t n te x])
  finally show ?thesis .
qed

text \<open>The two invariants of the loop on plain records.\<close>

lemma survivors_step:
  assumes plain: "plain_record e line"
    and prev: "\<forall>l \<in> set ls. plain_record e l"
    and a: "\<forall>kv \<in> set m. \<exists>l \<in> set ls. \<exists>kvs. JSON_parse e l = Some (JObj kvs)
                \<and> snd kv = JObj kvs \<and> fst kv = record_identity l kvs"
    and b: "\<forall>l \<in> set ls. \<forall>kvs. JSON_parse e l = Some (JObj kvs) \<longrightarrow>
                (\<exists>v. (record_identity l kvs, v) \<in> set m \<and> record_ts (JObj kvs) \<le> record_ts v)"
  shows "(\<forall>kv \<in> set (jsonl_step e m line). \<exists>l \<in> set (ls @ [line]). \<exists>kvs.
             JSON_parse e l = Some (JObj kvs) \<and> snd kv = JObj kvs \<and> fst kv = record_identity l kvs)
       \<and> (\<forall>l \<in> set (ls @ [line]). \<forall>kvs. JSON_parse e l = Some (JObj kvs) \<longrightarrow>
             (\<exists>v. (record_identity l kvs, v) \<in> set (jsonl_step e m line)
                 \<and> record_ts (JObj kvs) \<le> record_ts v))"
proof -
  from plain obtain kvs where parse: "JSON_parse e line = Some (JObj kvs)"
    and n: "0 \<le> record_ts (JObj kvs)"
    and t: "field kvs ''timestamp'' = JUndefined \<and> record_ts (JObj kvs) = 0
            \<or> field kvs ''timestamp'' = JNum (record_ts (JObj kvs))"
    by (rule plain_recordD)
  let ?k = "record_identity line kvs"
  let ?new = "(?k, JObj kvs)"
  have grow: "?thesis" if m': "jsonl_step e m line = m'"
    and sub: "\<forall>kv \<in> set m'. kv \<in> set m \<or> kv = ?new"
    and keep: "\<forall>kv \<in> set m. kv \<in> set m' \<or> (fst kv = ?k \<and> record_ts (snd kv) \<le> record_ts (JObj kvs) \<and> ?new \<in> set m')"
    and mine: "\<exists>v. (?k, v) \<in> set m' \<and> record_ts (JObj kvs) \<le> record_ts v" for m'
  proof (intro conjI ballI allI impI)
    fix kv assume "kv \<in> set (jsonl_step e m line)"
    with m' sub have "kv \<in> set m \<or> kv = ?new" by simp
    then show "\<exists>l \<in> set (ls @ [line]). \<exists>kvs. JSON_parse e l = Some (JObj kvs)
                 \<and> snd kv = JObj kvs \<and> fst kv = record_identity l kvs"
    proof
      assume "kv \<in> set m"
      with a show ?thesis by fastforce
    next
      assume "kv = ?new"
      with parse show ?thesis by auto
    qed
  next
    fix l kvs' assume l: "l \<in> set (ls @ [line])" and p: "JSON_parse e l = Some (JObj kvs')"
    show "\<exists>v. (record_identity l kvs', v) \<in> set (jsonl_step e m line)
             \<and> record_ts (JObj kvs') \<le> record_ts v"
    proof (cases "l \<in> set ls")
      case True
      with b p obtain v where v: "(record_identity l kvs', v) \<in> set m"
        "record_ts (JObj kvs') \<le> record_ts v" by blast
      from keep v(1) have "(record_identity l kvs', v) \<in> set m'
          \<or> (record_identity l kvs' = ?k \<and> record_ts v \<le> record_ts (JObj kvs) \<and> ?new \<in> set m')"
        by fastforce
      then show ?thesis
      proof
        assume "(record_identity l kvs', v) \<in> set m'"
        with v(2) m' show ?thesis by blast
      next
        assume *: "record_identity l kvs' = ?k \<and> record_ts v \<le> record_ts (JObj kvs) \<and> ?new \<in> set m'"
        then have "record_ts (JObj kvs') \<le> record_ts (JObj kvs)" using v(2) by simp
        with * m' show ?thesis by auto
      qed
    next
      case False
      with l have "l = line" by simp
      with p parse have "kvs' = kvs" by simp
      with \<open>l = line\<close> mine m' show ?thesis by simp
    qed
  qed
  show ?thesis
  proof (cases "map_has m ?k")
    case False
    have "jsonl_step e m line = m @ [?new]"
      by (rule step_plain_absent [OF parse False])
    then show ?thesis by (rule grow) auto
  next
    case True
    from map_set_present [OF True, of "JObj kvs"] obtain m1 k0 v0 m2 where
      dec: "m = m1 @ (k0, v0) # m2" "same_value_zero k0 ?k"
        "map_set ?k (JObj kvs) m = m1 @ (k0, JObj kvs) # m2" "map_get m ?k = v0" by blast
    from dec(2) have k0: "k0 = ?k" by (rule svz_primitive)
    from dec(1) have "(k0, v0) \<in> set m" by simp
    with a obtain l0 kvs0 where l0: "l0 \<in> set ls" "JSON_parse e l0 = Some (JObj kvs0)"
      "v0 = JObj kvs0" by fastforce
    from prev l0(1) have "plain_record e l0" by simp
    then obtain kvs0' where "JSON_parse e l0 = Some (JObj kvs0')"
      and x': "0 \<le> record_ts (JObj kvs0')"
      and te': "field kvs0' ''timestamp'' = JUndefined \<and> record_ts (JObj kvs0') = 0
            \<or> field kvs0' ''timestamp'' = JNum (record_ts (JObj kvs0'))"
      by (rule plain_recordD)
    with l0(2) have x: "0 \<le> record_ts (JObj kvs0)"
      and te: "field kvs0 ''timestamp'' = JUndefined \<and> record_ts (JObj kvs0) = 0
            \<or> field kvs0 ''timestamp'' = JNum (record_ts (JObj kvs0))"
      by simp_all
    have ex: "map_get m ?k = JObj kvs0" using dec(4) l0(3) by simp
    have st: "jsonl_step e m line =
           (if record_ts (JObj kvs0) < record_ts (JObj kvs) then map_set ?k (JObj kvs) m else m)"
      by (rule step_plain_present [OF parse True ex t n te x])
    show ?thesis
    proof (cases "record_ts (JObj kvs0) < record_ts (JObj kvs)")
      case newer: True
      with st dec(3) k0 have "jsonl_step e m line = m1 @ ?new # m2" by simp
      then show ?thesis
      proof (rule grow)
        show "\<forall>kv \<in> set (m1 @ ?new # m2). kv \<in> set m \<or> kv = ?new"
          using dec(1) by auto
        show "\<forall>kv \<in> set m. kv \<in> set (m1 @ ?new # m2)
                \<or> (fst kv = ?k \<and> record_ts (snd kv) \<le> record_ts (JObj kvs) \<and> ?new \<in> set (m1 @ ?new # m2))"
          using dec(1) k0 l0(3) newer by auto
        show "\<exists>v. (?k, v) \<in> set (m1 @ ?new # m2) \<and> record_ts (JObj kvs) \<le> record_ts v"
          by auto
      qed
    next
      case older: False
      with st have "jsonl_step e m line = m" by simp
      then show ?thesis
      proof (rule grow)
        show "\<forall>kv \<in> set m. kv \<in> set m \<or> kv = ?new" by simp
        show "\<forall>kv \<in> set m. kv \<in> set m
                \<or> (fst kv = ?k \<and> record_ts (snd kv) \<le> record_ts (JObj kvs) \<and> ?new \<in> set m)"
          by simp
        show "\<exists>v. (?k, v) \<in> set m \<and> record_ts (JObj kvs) \<le> record_ts v"
          using \<open>(k0, v0) \<in> set m\<close> k0 l0(3) older by auto
      qed
    qed
  qed
qed

lemma survivors_fold:
  assumes "\<forall>l \<in> set ls. plain_record e l"
  shows "(\<forall>kv \<in> set (foldl (jsonl_step e) [] ls). \<exists>l \<in> set ls. \<exists>kvs.
             JSON_parse e l = Some (JObj kvs) \<and> snd kv = JObj kvs \<and> fst kv = record_identity l kvs)
       \<and> (\<forall>l \<in> set ls. \<forall>kvs. JSON_parse e l = Some (JObj kvs) \<longrightarrow>
             (\<exists>v. (record_identity l kvs, v) \<in> set (foldl (jsonl_step e) [] ls)
                 \<and> record_ts (JObj kvs) \<le> record_ts v))"
  using assms
proof (induction ls rule: rev_induct)
  case Nil
  then show ?case by simp
next
  case (snoc line ls)
  from snoc.prems have plain: "plain_record e line" and prev: "\<forall>l \<in> set ls. plain_record e l"
    by simp_all
  from snoc.IH [OF prev] have
    a: "\<forall>kv \<in> set (foldl (jsonl_step e) [] ls). \<exists>l \<in> set ls. \<exists>kvs.
             JSON_parse e l = Some (JObj kvs) \<and> snd kv = JObj kvs \<and> fst kv = record_identity l kvs"
    and b: "\<forall>l \<in> set ls. \<forall>kvs. JSON_parse e l = Some (JObj kvs) \<longrightarrow>
             (\<exists>v. (record_identity l kvs, v) \<in> set (foldl (jsonl_step e) [] ls)
                 \<and> record_ts (JObj kvs) \<le> record_ts v)"
    by blast+
  from survivors_step [OF plain prev a b] show ?case by simp
qed

lemma set_js_insert: "set (js_insert le x xs) = insert x (set xs)"
  using mset_js_insert [of le x xs] by (metis set_mset_add_mset_insert set_mset_mset)

lemma js_insert_t_total:
  "\<forall>y \<in> set ys. cmp y x = Some (le y x) \<Longrightarrow> js_insert_t cmp x ys = Some (js_insert le x ys)"
  by (induction ys) auto

lemma js_sort_t_fold:
  "\<forall>a \<in> set acc \<union> set xs. \<forall>b \<in> set acc \<union> set xs. cmp a b = Some (le a b) \<Longrightarrow>
     foldl (\<lambda>acc x. case acc of None \<Rightarrow> None | Some a \<Rightarrow> js_insert_t cmp x a) (Some acc) xs
       = Some (foldl (\<lambda>acc x. js_insert le x acc) acc xs)"
proof (induction xs arbitrary: acc)
  case Nil
  then show ?case by simp
next
  case (Cons x xs)
  have 1: "js_insert_t cmp x acc = Some (js_insert le x acc)"
    using Cons.prems by (intro js_insert_t_total) auto
  have 2: "\<forall>a \<in> set (js_insert le x acc) \<union> set xs. \<forall>b \<in> set (js_insert le x acc) \<union> set xs.
             cmp a b = Some (le a b)"
    using Cons.prems by (auto simp: set_js_insert)
  show ?case using Cons.IH [OF 2] 1 by simp
qed

lemma js_sort_t_total:
  "\<forall>a \<in> set xs. \<forall>b \<in> set xs. cmp a b = Some (le a b) \<Longrightarrow> js_sort_t cmp xs = Some (js_sort le xs)"
  using js_sort_t_fold [of "[]" xs cmp le] by (simp add: js_sort_t_def js_sort_def)

lemma jsonl_cmp_plain:
  assumes ta: "field ka ''timestamp'' = JUndefined \<and> record_ts (JObj ka) = 0
            \<or> field ka ''timestamp'' = JNum (record_ts (JObj ka))"
    and tb: "field kb ''timestamp'' = JUndefined \<and> record_ts (JObj kb) = 0
            \<or> field kb ''timestamp'' = JNum (record_ts (JObj kb))"
  shows "jsonl_cmp e (JObj ka) (JObj kb) = Some (record_ts (JObj ka) \<le> record_ts (JObj kb))"
proof -
  have "jsonl_cmp e (JObj ka) (JObj kb) =
          (case js_sub e (js_or (field ka ''timestamp'') (JNum 0)) (js_or (field kb ''timestamp'') (JNum 0)) of
             None \<Rightarrow> None | Some None \<Rightarrow> Some True | Some (Some r) \<Rightarrow> Some (r \<le> 0))"
    by (simp add: jsonl_cmp_def js_get_obj del: js_get.simps)
  also have "\<dots> = Some (record_ts (JObj ka) \<le> record_ts (JObj kb))"
    using ta tb by (auto simp: js_sub_def js_or_def to_primitive_def prim_to_number_def)
  finally show ?thesis .
qed

lemma jsonl_not_json: "endsWith p ''.jsonl'' \<Longrightarrow> \<not> endsWith p ''.json''"
proof
  assume a: "endsWith p ''.jsonl''" and b: "endsWith p ''.json''"
  from a have d: "drop (length p - length ''.jsonl'') p = ''.jsonl''"
    unfolding endsWith_def by (rule conjunct2)
  have "take (length p - length ''.jsonl'') p @ ''.jsonl'' = p"
    by (subst (2) d [symmetric]) (rule append_take_drop_id)
  then obtain q where p: "p = q @ ''.jsonl''" by metis
  from b show False unfolding p by (simp add: endsWith_def)
qed

lemma map_set_self: "(k, v) \<in> set (map_set k v m)"
  by (induction m) (auto dest: svz_primitive)

lemma map_set_other:
  "(k0, v0) \<in> set m \<Longrightarrow> \<not> same_value_zero k0 k \<Longrightarrow> (k0, v0) \<in> set (map_set k v m)"
  by (induction m) auto

lemma map_set_values: "kv \<in> set (map_set k v m) \<Longrightarrow> snd kv = v \<or> kv \<in> set m"
  by (induction m) (auto split: if_splits)

text \<open>The three things a step of the loop can do.\<close>

lemma step_shape:
  "jsonl_step e m line = m
   \<or> jsonl_step e m line = map_set (JStr line) (JStr line) m
   \<or> (\<exists>obj. JSON_parse e line = Some obj \<and> obj \<noteq> JNull \<and> obj \<noteq> JUndefined
          \<and> jsonl_step e m line =
              map_set (case obj of JObj kvs \<Rightarrow> record_identity line kvs | _ \<Rightarrow> JStr line) obj m)"
proof (cases "JSON_parse e line")
  case None
  then show ?thesis by (simp add: jsonl_step_def)
next
  case (Some obj)
  show ?thesis
  proof (cases obj)
    case (JObj kvs)
    with Some show ?thesis
      by (auto simp: jsonl_step_def Let_def js_get_obj or_chain_identity
          simp del: js_get.simps split: option.splits bool.splits)
  qed (use Some in \<open>auto simp: jsonl_step_def Let_def js_or_def split: option.splits bool.splits\<close>)
qed

lemma raw_step:
  assumes kept: "(JStr l, JStr l) \<in> set m"
    and raw: "JSON_parse e l = None"
    and other: "\<forall>kvs. JSON_parse e l' = Some (JObj kvs) \<longrightarrow> record_identity l' kvs \<noteq> JStr l"
  shows "(JStr l, JStr l) \<in> set (jsonl_step e m l')"
proof -
  from step_shape [of e m l'] consider
      (same) "jsonl_step e m l' = m"
    | (caught) "jsonl_step e m l' = map_set (JStr l') (JStr l') m"
    | (stored) obj where "JSON_parse e l' = Some obj"
        "jsonl_step e m l' =
           map_set (case obj of JObj kvs \<Rightarrow> record_identity l' kvs | _ \<Rightarrow> JStr l') obj m"
    by blast
  then show ?thesis
  proof cases
    case same
    with kept show ?thesis by simp
  next
    case caught
    show ?thesis
    proof (cases "l' = l")
      case True
      with caught show ?thesis by (simp add: map_set_self)
    next
      case False
      with caught kept show ?thesis by (simp add: map_set_other)
    qed
  next
    case (stored obj)
    from stored(1) raw have ne: "l' \<noteq> l" by auto
    let ?k = "case obj of JObj kvs \<Rightarrow> record_identity l' kvs | _ \<Rightarrow> JStr l'"
    have "?k \<noteq> JStr l"
      using other stored(1) ne by (cases obj) auto
    with svz_primitive [of "JStr l" ?k] have "\<not> same_value_zero (JStr l) ?k" by auto
    from map_set_other [OF kept this] stored(2) show ?thesis by simp
  qed
qed

lemma raw_fold:
  assumes raw: "JSON_parse e l = None"
    and other: "\<forall>l' \<in> set ls. \<forall>kvs. JSON_parse e l' = Some (JObj kvs) \<longrightarrow>
                  record_identity l' kvs \<noteq> JStr l"
    and mem: "l \<in> set ls"
  shows "(JStr l, JStr l) \<in> set (foldl (jsonl_step e) [] ls)"
  using other mem
proof (induction ls rule: rev_induct)
  case Nil
  then show ?case by simp
next
  case (snoc x xs)
  show ?case
  proof (cases "x = l")
    case True
    with raw show ?thesis by (simp add: jsonl_step_def map_set_self)
  next
    case False
    with snoc.prems have "l \<in> set xs" by simp
    with snoc have kept: "(JStr l, JStr l) \<in> set (foldl (jsonl_step e) [] xs)" by simp
    from snoc.prems have "\<forall>kvs. JSON_parse e x = Some (JObj kvs) \<longrightarrow> record_identity x kvs \<noteq> JStr l"
      by simp
    from raw_step [OF kept raw this] show ?thesis by simp
  qed
qed

text \<open>The sort returns a rearrangement of its input, whatever the comparator.\<close>

lemma mset_js_insert_t:
  "js_insert_t cmp x ys = Some zs \<Longrightarrow> mset zs = add_mset x (mset ys)"
proof (induction ys arbitrary: zs)
  case Nil
  then show ?case by auto
next
  case (Cons y ys)
  then show ?case
    by (auto split: option.splits bool.splits)
qed

lemma mset_js_sort_t_fold:
  "foldl (\<lambda>acc x. case acc of None \<Rightarrow> None | Some a \<Rightarrow> js_insert_t cmp x a) acc xs = Some ys
     \<Longrightarrow> \<exists>a. acc = Some a \<and> mset ys = mset a + mset xs"
proof (induction xs arbitrary: acc)
  case Nil
  then show ?case by simp
next
  case (Cons x xs)
  from Cons.IH [OF Cons.prems [simplified]] obtain a' where
    a': "(case acc of None \<Rightarrow> None | Some a \<Rightarrow> js_insert_t cmp x a) = Some a'"
      "mset ys = mset a' + mset xs" by blast
  then obtain a where a: "acc = Some a" "js_insert_t cmp x a = Some a'"
    by (cases acc) auto
  from mset_js_insert_t [OF a(2)] a'(2) a(1) show ?case by simp
qed

lemma mset_js_sort_t: "js_sort_t cmp xs = Some ys \<Longrightarrow> mset ys = mset xs"
  using mset_js_sort_t_fold [of cmp "Some []" xs ys] by (simp add: js_sort_t_def)

text \<open>The sort returns when the comparator does.\<close>

lemma js_insert_t_some:
  "\<forall>y \<in> set ys. cmp y x \<noteq> None \<Longrightarrow> \<exists>zs. js_insert_t cmp x ys = Some zs"
  by (induction ys) (auto split: option.splits bool.splits)

lemma js_sort_t_fold_some:
  "\<forall>a \<in> set acc \<union> set xs. \<forall>b \<in> set acc \<union> set xs. cmp a b \<noteq> None \<Longrightarrow>
     \<exists>ys. foldl (\<lambda>acc x. case acc of None \<Rightarrow> None | Some a \<Rightarrow> js_insert_t cmp x a) (Some acc) xs
            = Some ys"
proof (induction xs arbitrary: acc)
  case Nil
  then show ?case by simp
next
  case (Cons x xs)
  from Cons.prems have "\<forall>y \<in> set acc. cmp y x \<noteq> None" by simp
  with js_insert_t_some [of acc cmp x] obtain zs where zs: "js_insert_t cmp x acc = Some zs"
    by blast
  from mset_js_insert_t [OF zs] have "set zs = insert x (set acc)"
    by (metis set_mset_add_mset_insert set_mset_mset)
  with Cons.prems have "\<forall>a \<in> set zs \<union> set xs. \<forall>b \<in> set zs \<union> set xs. cmp a b \<noteq> None"
    by simp
  from Cons.IH [OF this] zs show ?case by simp
qed

lemma js_sort_t_some:
  "\<forall>a \<in> set xs. \<forall>b \<in> set xs. cmp a b \<noteq> None \<Longrightarrow> \<exists>ys. js_sort_t cmp xs = Some ys"
  using js_sort_t_fold_some [of "[]" xs cmp] by (simp add: js_sort_t_def)

lemma jsonl_cmp_comparable:
  assumes "comparable a" and "comparable b"
  shows "jsonl_cmp e a b \<noteq> None"
proof -
  have prim: "\<exists>p. to_primitive e (js_or t (JNum 0)) = Some p" if "is_primitive t" for t
    using that by (cases t) (auto simp: to_primitive_def js_or_def)
  have ts: "\<exists>t. js_get v ''timestamp'' = Some t \<and> is_primitive t" if "comparable v" for v
    using that by (cases v) (auto simp: comparable_def field_def)
  from ts [OF assms(1)] obtain ta where ta: "js_get a ''timestamp'' = Some ta" "is_primitive ta"
    by blast
  from ts [OF assms(2)] obtain tb where tb: "js_get b ''timestamp'' = Some tb" "is_primitive tb"
    by blast
  from prim [OF ta(2)] obtain pa where pa: "to_primitive e (js_or ta (JNum 0)) = Some pa" by blast
  from prim [OF tb(2)] obtain pb where pb: "to_primitive e (js_or tb (JNum 0)) = Some pb" by blast
  show ?thesis
    using ta(1) tb(1) pa pb
    by (auto simp: jsonl_cmp_def js_sub_def split: option.splits simp del: js_get.simps)
qed

lemma comparable_step:
  assumes inv: "\<forall>kv \<in> set m. comparable (snd kv)"
    and line: "\<forall>kvs. JSON_parse e line = Some (JObj kvs) \<longrightarrow> is_primitive (field kvs ''timestamp'')"
  shows "\<forall>kv \<in> set (jsonl_step e m line). comparable (snd kv)"
proof -
  have new: "\<forall>kv \<in> set (map_set k v0 m). comparable (snd kv)" if "comparable v0" for k v0
    using map_set_values [of _ k v0 m] inv that by auto
  from step_shape [of e m line] consider
      (same) "jsonl_step e m line = m"
    | (caught) "jsonl_step e m line = map_set (JStr line) (JStr line) m"
    | (stored) obj where "JSON_parse e line = Some obj" "obj \<noteq> JNull" "obj \<noteq> JUndefined"
        "jsonl_step e m line =
           map_set (case obj of JObj kvs \<Rightarrow> record_identity line kvs | _ \<Rightarrow> JStr line) obj m"
    by blast
  then show ?thesis
  proof cases
    case same
    with inv show ?thesis by simp
  next
    case caught
    have "comparable (JStr line)" by (simp add: comparable_def)
    from new [OF this] caught show ?thesis by simp
  next
    case (stored obj)
    have "comparable obj" using stored(1,2,3) line by (cases obj) (auto simp: comparable_def)
    from new [OF this] stored(4) show ?thesis by simp
  qed
qed

lemma comparable_fold:
  assumes "\<forall>l \<in> set ls. \<forall>kvs. JSON_parse e l = Some (JObj kvs) \<longrightarrow>
             is_primitive (field kvs ''timestamp'')"
  shows "\<forall>kv \<in> set (foldl (jsonl_step e) [] ls). comparable (snd kv)"
  using assms
proof (induction ls rule: rev_induct)
  case Nil
  then show ?case by simp
next
  case (snoc x xs)
  then have inv: "\<forall>kv \<in> set (foldl (jsonl_step e) [] xs). comparable (snd kv)"
    and line: "\<forall>kvs. JSON_parse e x = Some (JObj kvs) \<longrightarrow> is_primitive (field kvs ''timestamp'')"
    by simp_all
  from comparable_step [OF inv line] show ?case by simp
qed

lemma mergeJSONL_returns:
  assumes "\<forall>l \<in> set (nonempty_lines cA @ nonempty_lines cB).
             \<forall>kvs. JSON_parse e l = Some (JObj kvs) \<longrightarrow> is_primitive (field kvs ''timestamp'')"
  shows "\<exists>out. mergeJSONL e cA cB = Some out"
proof -
  have inv: "\<forall>kv \<in> set (jsonl_map e cA cB). comparable (snd kv)"
    unfolding jsonl_map_def by (rule comparable_fold [OF assms])
  have "\<forall>a \<in> set (map snd (jsonl_map e cA cB)). \<forall>b \<in> set (map snd (jsonl_map e cA cB)).
               jsonl_cmp e a b \<noteq> None"
  proof (intro ballI)
    fix a b
    assume "a \<in> set (map snd (jsonl_map e cA cB))" "b \<in> set (map snd (jsonl_map e cA cB))"
    with inv have "comparable a" "comparable b" by auto
    then show "jsonl_cmp e a b \<noteq> None" by (rule jsonl_cmp_comparable)
  qed
  with js_sort_t_some [of "map snd (jsonl_map e cA cB)" "jsonl_cmp e"]
  obtain ys where "js_sort_t (jsonl_cmp e) (map snd (jsonl_map e cA cB)) = Some ys" by blast
  then show ?thesis by (simp add: mergeJSONL_def)
qed

lemma mergeJSONL_lines:
  assumes "mergeJSONL e cA cB = Some out"
  shows "\<exists>items. out = join nl (map (serialize e) items)
           \<and> mset items = mset (map snd (jsonl_map e cA cB))"
  using assms mset_js_sort_t [of "jsonl_cmp e" "map snd (jsonl_map e cA cB)"]
  by (auto simp: mergeJSONL_def split: option.splits)

text \<open>
  C6, as the code has it. For every conflict of the user over a path ending in \<open>.jsonl\<close>,
  \<open>keep_both\<close> returns \<open>mergeJSONL\<close> of the two sides, which goes through the non-empty
  lines of side A and then of side B, and then sorts and writes the stored values.
  \<^item> The merge returns, rather than throws, when no record has an array or an object as
    its timestamp. Whenever it returns, its output is the stored values in some order,
    each on a line of its own, a stored text as it is and any other value serialised.
  \<^item> A line that does not parse is stored under its own text. It is still stored at the
    end, and is then a line of the output, when no record of the input has that text as
    its identity.
  \<^item> A record is stored under its identity: the first truthy value among its fields \<open>id\<close>,
    \<open>uuid\<close> and \<open>timestamp\<close> (an absent field, 0, the empty string, \<open>false\<close> and \<open>null\<close>
    are passed over), else the text of the line.
  \<^item> No two stored entries have the same identity.
  \<^item> When every line is a plain record (it parses to a record whose field \<open>timestamp\<close> is
    absent or a number that is not negative, and whose identity is a number, string or
    boolean): every stored entry is the record of a line under the identity of that
    record; for every record of the input the entry stored under its identity has a
    timestamp at least as large; and the output is the stored records sorted by timestamp
    ascending, each serialised on a line of its own.
\<close>

theorem keep_both_jsonl_merge:
  assumes key: "validateApiKeyInternal e d apiKey = Some usr"
    and found: "find (\<lambda>c. c_id c = conflictId) (syncConflicts d) = Some conflict"
    and owner: "c_userId conflict = u_id usr"
    and jsonl: "endsWith (c_filePath conflict) ''.jsonl''"
    and lines: "ls = nonempty_lines (contentA conflict) @ nonempty_lines (contentB conflict)"
    and stored: "m = jsonl_map e (contentA conflict) (contentB conflict)"
  shows "(\<forall>c. mergeJSONL e (contentA conflict) (contentB conflict) = Some c \<longrightarrow>
            (\<exists>d'. resolveConflict e d apiKey conflictId keep_both manualContent dev now
                    = Inr (d', c)))
       \<and> ((\<forall>l \<in> set ls. \<forall>kvs. JSON_parse e l = Some (JObj kvs) \<longrightarrow>
               is_primitive (field kvs ''timestamp'')) \<longrightarrow>
            (\<exists>c. mergeJSONL e (contentA conflict) (contentB conflict) = Some c))
       \<and> (\<forall>c. mergeJSONL e (contentA conflict) (contentB conflict) = Some c \<longrightarrow>
            (\<exists>items. c = join nl (map (serialize e) items) \<and> mset items = mset (map snd m)))
       \<and> (\<forall>m' line. JSON_parse e line = None \<longrightarrow>
            jsonl_step e m' line = map_set (JStr line) (JStr line) m')
       \<and> (\<forall>s. serialize e (JStr s) = s)
       \<and> (\<forall>l \<in> set ls.
             JSON_parse e l = None
             \<and> (\<forall>l' \<in> set ls. \<forall>kvs. JSON_parse e l' = Some (JObj kvs) \<longrightarrow>
                   record_identity l' kvs \<noteq> JStr l) \<longrightarrow>
             (JStr l, JStr l) \<in> set m
             \<and> (\<forall>c. mergeJSONL e (contentA conflict) (contentB conflict) = Some c \<longrightarrow>
                   (\<exists>texts. c = join nl texts \<and> l \<in> set texts)))
       \<and> (\<forall>m' line kvs. JSON_parse e line = Some (JObj kvs)
              \<and> \<not> map_has m' (record_identity line kvs) \<longrightarrow>
            jsonl_step e m' line = m' @ [(record_identity line kvs, JObj kvs)])
       \<and> (\<forall>i j. i < j \<and> j < length m \<longrightarrow> \<not> same_value_zero (fst (m ! i)) (fst (m ! j)))
       \<and> ((\<forall>l \<in> set ls. plain_record e l) \<longrightarrow>
            (\<forall>kv \<in> set m. \<exists>l \<in> set ls. \<exists>kvs. JSON_parse e l = Some (JObj kvs)
                \<and> snd kv = JObj kvs \<and> fst kv = record_identity l kvs)
          \<and> (\<forall>l \<in> set ls. \<forall>kvs. JSON_parse e l = Some (JObj kvs) \<longrightarrow>
                (\<exists>v. (record_identity l kvs, v) \<in> set m
                    \<and> record_ts (JObj kvs) \<le> record_ts v))
          \<and> (\<exists>items. mergeJSONL e (contentA conflict) (contentB conflict)
                         = Some (join nl (map (JSON_stringify e 0) items))
                \<and> mset items = mset (map snd m)
                \<and> sorted_wrt (\<lambda>a b. record_ts a \<le> record_ts b) items))"
proof (intro conjI allI impI)
  fix c assume c: "mergeJSONL e (contentA conflict) (contentB conflict) = Some c"
  show "\<exists>d'. resolveConflict e d apiKey conflictId keep_both manualContent dev now = Inr (d', c)"
    using key found owner jsonl jsonl_not_json [OF jsonl] c
    by (simp add: resolveConflict_def finalContent_def Let_def)
next
  assume "\<forall>l \<in> set ls. \<forall>kvs. JSON_parse e l = Some (JObj kvs) \<longrightarrow>
            is_primitive (field kvs ''timestamp'')"
  then show "\<exists>c. mergeJSONL e (contentA conflict) (contentB conflict) = Some c"
    unfolding lines by (rule mergeJSONL_returns)
next
  fix c assume "mergeJSONL e (contentA conflict) (contentB conflict) = Some c"
  then show "\<exists>items. c = join nl (map (serialize e) items) \<and> mset items = mset (map snd m)"
    unfolding stored by (rule mergeJSONL_lines)
next
  fix m' line assume "JSON_parse e line = None"
  then show "jsonl_step e m' line = map_set (JStr line) (JStr line) m'"
    by (simp add: jsonl_step_def)
next
  fix s show "serialize e (JStr s) = s"
    by (simp add: serialize_def)
next
  have m: "m = foldl (jsonl_step e) [] ls"
    by (simp add: stored lines jsonl_map_def)
  show "\<forall>l \<in> set ls.
             JSON_parse e l = None
             \<and> (\<forall>l' \<in> set ls. \<forall>kvs. JSON_parse e l' = Some (JObj kvs) \<longrightarrow>
                   record_identity l' kvs \<noteq> JStr l) \<longrightarrow>
             (JStr l, JStr l) \<in> set m
             \<and> (\<forall>c. mergeJSONL e (contentA conflict) (contentB conflict) = Some c \<longrightarrow>
                   (\<exists>texts. c = join nl texts \<and> l \<in> set texts))"
  proof (intro ballI impI)
    fix l
    assume l: "l \<in> set ls"
      and raw: "JSON_parse e l = None
             \<and> (\<forall>l' \<in> set ls. \<forall>kvs. JSON_parse e l' = Some (JObj kvs) \<longrightarrow>
                   record_identity l' kvs \<noteq> JStr l)"
    from raw have none: "JSON_parse e l = None"
      and other: "\<forall>l' \<in> set ls. \<forall>kvs. JSON_parse e l' = Some (JObj kvs) \<longrightarrow>
                   record_identity l' kvs \<noteq> JStr l" by simp_all
    have kept: "(JStr l, JStr l) \<in> set m"
      unfolding m by (rule raw_fold [OF none other l])
    have "\<exists>texts. c = join nl texts \<and> l \<in> set texts"
      if "mergeJSONL e (contentA conflict) (contentB conflict) = Some c" for c
    proof -
      from mergeJSONL_lines [OF that] obtain items where
        items: "c = join nl (map (serialize e) items)" "mset items = mset (map snd m)"
        unfolding stored by blast
      from kept have "JStr l \<in> set (map snd m)" by force
      with items(2) have "JStr l \<in> set items" by (metis set_mset_mset)
      then have "serialize e (JStr l) \<in> set (map (serialize e) items)" by simp
      then have "l \<in> set (map (serialize e) items)" by (simp add: serialize_def)
      with items(1) show ?thesis by blast
    qed
    with kept show "(JStr l, JStr l) \<in> set m
             \<and> (\<forall>c. mergeJSONL e (contentA conflict) (contentB conflict) = Some c \<longrightarrow>
                   (\<exists>texts. c = join nl texts \<and> l \<in> set texts))"
      by blast
  qed
next
  fix m' line kvs
  assume "JSON_parse e line = Some (JObj kvs) \<and> \<not> map_has m' (record_identity line kvs)"
  then show "jsonl_step e m' line = m' @ [(record_identity line kvs, JObj kvs)]"
    by (simp add: step_plain_absent)
next
  fix i j assume "i < j \<and> j < length m"
  moreover have "keys_apart m"
    unfolding stored jsonl_map_def by (rule keys_apart_fold) simp
  ultimately show "\<not> same_value_zero (fst (m ! i)) (fst (m ! j))"
    using keys_apart_nth by blast
next
  assume plain: "\<forall>l \<in> set ls. plain_record e l"
  have m: "m = foldl (jsonl_step e) [] ls"
    by (simp add: stored lines jsonl_map_def)
  from survivors_fold [OF plain] have
    a: "\<forall>kv \<in> set m. \<exists>l \<in> set ls. \<exists>kvs. JSON_parse e l = Some (JObj kvs)
            \<and> snd kv = JObj kvs \<and> fst kv = record_identity l kvs"
    and b: "\<forall>l \<in> set ls. \<forall>kvs. JSON_parse e l = Some (JObj kvs) \<longrightarrow>
            (\<exists>v. (record_identity l kvs, v) \<in> set m \<and> record_ts (JObj kvs) \<le> record_ts v)"
    unfolding m by blast+
  show "\<forall>kv \<in> set m. \<exists>l \<in> set ls. \<exists>kvs. JSON_parse e l = Some (JObj kvs)
            \<and> snd kv = JObj kvs \<and> fst kv = record_identity l kvs"
    by (rule a)
  show "\<forall>l \<in> set ls. \<forall>kvs. JSON_parse e l = Some (JObj kvs) \<longrightarrow>
            (\<exists>v. (record_identity l kvs, v) \<in> set m \<and> record_ts (JObj kvs) \<le> record_ts v)"
    by (rule b)
  let ?le = "\<lambda>a b. record_ts a \<le> record_ts b"
  let ?items = "js_sort ?le (map snd m)"
  have rec: "\<exists>kvs. v = JObj kvs
               \<and> (field kvs ''timestamp'' = JUndefined \<and> record_ts (JObj kvs) = 0
                  \<or> field kvs ''timestamp'' = JNum (record_ts (JObj kvs)))"
    if "v \<in> set (map snd m)" for v
  proof -
    from that a obtain l kvs where l: "l \<in> set ls" "JSON_parse e l = Some (JObj kvs)" "v = JObj kvs"
      by fastforce
    from plain l(1) have "plain_record e l" by simp
    then obtain kvs' where "JSON_parse e l = Some (JObj kvs')"
      "field kvs' ''timestamp'' = JUndefined \<and> record_ts (JObj kvs') = 0
         \<or> field kvs' ''timestamp'' = JNum (record_ts (JObj kvs'))"
      by (rule plain_recordD)
    with l show ?thesis by simp
  qed
  have cmp: "\<forall>a \<in> set (map snd m). \<forall>b \<in> set (map snd m). jsonl_cmp e a b = Some (?le a b)"
  proof (intro ballI)
    fix a b assume "a \<in> set (map snd m)" "b \<in> set (map snd m)"
    from rec [OF this(1)] rec [OF this(2)] show "jsonl_cmp e a b = Some (?le a b)"
      by (auto simp: jsonl_cmp_plain)
  qed
  have sorted: "js_sort_t (jsonl_cmp e) (map snd m) = Some ?items"
    by (rule js_sort_t_total [OF cmp])
  have ser: "map (serialize e) ?items = map (JSON_stringify e 0) ?items"
  proof (rule map_cong [OF refl])
    fix v assume "v \<in> set ?items"
    then have "v \<in> set (map snd m)"
      using mset_js_sort [of ?le "map snd m"] by (metis set_mset_mset)
    from rec [OF this] show "serialize e v = JSON_stringify e 0 v"
      by (auto simp: serialize_def)
  qed
  have "mergeJSONL e (contentA conflict) (contentB conflict)
          = Some (join nl (map (serialize e) ?items))"
    using sorted by (simp add: mergeJSONL_def stored [symmetric])
  then have out: "mergeJSONL e (contentA conflict) (contentB conflict)
               = Some (join nl (map (JSON_stringify e 0) ?items))"
    by (simp only: ser)
  have "sorted_wrt ?le ?items"
    by (rule sorted_js_sort) auto
  with out mset_js_sort [of ?le "map snd m"]
  show "\<exists>items. mergeJSONL e (contentA conflict) (contentB conflict)
                         = Some (join nl (map (JSON_stringify e 0) items))
                \<and> mset items = mset (map snd m)
                \<and> sorted_wrt (\<lambda>a b. record_ts a \<le> record_ts b) items"
    by blast
qed

lemmas jsonl_eval =
  json_env_def json_texts_def conflict_log_def conflict_zero_def conflict_raw_def db_jsonl_def
  example_user_def validateApiKeyInternal_def hashApiKey_def get_user_def endsWith_def

text \<open>
  The example of the specification, with the field of the timestamp under its name
  \<open>timestamp\<close>: the records with id 1 and timestamps 5 and 9 leave the one with timestamp
  9, and the output is sorted by timestamp. And a file with a line that is not JSON on
  side A and a record on side B: the line is written back as it is.
\<close>

theorem keep_both_jsonl_merge_witness:
  \<open>validateApiKeyInternal json_env db_jsonl ''key'' = Some example_user
   \<and> find (\<lambda>c. c_id c = 5) (syncConflicts db_jsonl) = Some conflict_log
   \<and> endsWith (c_filePath conflict_log) ''.jsonl''
   \<and> list_all (plain_record json_env)
         (nonempty_lines (contentA conflict_log) @ nonempty_lines (contentB conflict_log))
   \<and> jsonl_map json_env (contentA conflict_log) (contentB conflict_log) =
       [(JNum 1, JObj [(''id'', JNum 1), (''timestamp'', JNum 9)]),
        (JNum 2, JObj [(''id'', JNum 2), (''timestamp'', JNum 7)])]
   \<and> (\<exists>d'. resolveConflict json_env db_jsonl ''key'' 5 keep_both None ''B'' 3000 =
              Inr (d', ''{"id":2,"timestamp":7}'' @ nl @ ''{"id":1,"timestamp":9}''))
   \<and> find (\<lambda>c. c_id c = 7) (syncConflicts db_jsonl) = Some conflict_raw
   \<and> nonempty_lines (contentA conflict_raw) @ nonempty_lines (contentB conflict_raw)
       = [''not json'', ''{"id":2,"timestamp":7}'']
   \<and> JSON_parse json_env ''not json'' = None
   \<and> JSON_parse json_env ''{"id":2,"timestamp":7}''
       = Some (JObj [(''id'', JNum 2), (''timestamp'', JNum 7)])
   \<and> record_identity ''{"id":2,"timestamp":7}'' [(''id'', JNum 2), (''timestamp'', JNum 7)]
       = JNum 2
   \<and> jsonl_map json_env (contentA conflict_raw) (contentB conflict_raw) =
       [(JStr ''not json'', JStr ''not json''),
        (JNum 2, JObj [(''id'', JNum 2), (''timestamp'', JNum 7)])]
   \<and> (\<exists>d'. resolveConflict json_env db_jsonl ''key'' 7 keep_both None ''B'' 3000 =
              Inr (d', ''not json'' @ nl @ ''{"id":2,"timestamp":7}''))\<close>
proof -
  note claim = keep_both_jsonl_merge
  have k: "validateApiKeyInternal json_env db_jsonl ''key'' = Some example_user"
    by (simp add: jsonl_eval)
  have f: "find (\<lambda>c. c_id c = 5) (syncConflicts db_jsonl) = Some conflict_log"
    by (simp add: jsonl_eval)
  have ow: "c_userId conflict_log = u_id example_user"
    by (simp add: jsonl_eval)
  have j: "endsWith (c_filePath conflict_log) ''.jsonl''"
    by (simp add: jsonl_eval)
  have pl: "list_all (plain_record json_env)
          (nonempty_lines (contentA conflict_log) @ nonempty_lines (contentB conflict_log))"
    by code_simp
  have mp: "jsonl_map json_env (contentA conflict_log) (contentB conflict_log) =
       [(JNum 1, JObj [(''id'', JNum 1), (''timestamp'', JNum 9)]),
        (JNum 2, JObj [(''id'', JNum 2), (''timestamp'', JNum 7)])]"
    by code_simp
  have out: \<open>mergeJSONL json_env (contentA conflict_log) (contentB conflict_log)
               = Some (''{"id":2,"timestamp":7}'' @ nl @ ''{"id":1,"timestamp":9}'')\<close>
    by code_simp
  from claim [OF k f ow j refl refl, of None "''B''" 3000, THEN conjunct1] out
  have r: \<open>\<exists>d'. resolveConflict json_env db_jsonl ''key'' 5 keep_both None ''B'' 3000 =
              Inr (d', ''{"id":2,"timestamp":7}'' @ nl @ ''{"id":1,"timestamp":9}'')\<close>
    by blast
  have f7: "find (\<lambda>c. c_id c = 7) (syncConflicts db_jsonl) = Some conflict_raw"
    by (simp add: jsonl_eval)
  have ow7: "c_userId conflict_raw = u_id example_user"
    by (simp add: jsonl_eval)
  have j7: "endsWith (c_filePath conflict_raw) ''.jsonl''"
    by (simp add: jsonl_eval)
  have ls7: \<open>nonempty_lines (contentA conflict_raw) @ nonempty_lines (contentB conflict_raw)
       = [''not json'', ''{"id":2,"timestamp":7}'']\<close>
    by code_simp
  have raw: "JSON_parse json_env ''not json'' = None"
    by code_simp
  have rec: \<open>JSON_parse json_env ''{"id":2,"timestamp":7}''
       = Some (JObj [(''id'', JNum 2), (''timestamp'', JNum 7)])\<close>
    by code_simp
  have ident: \<open>record_identity ''{"id":2,"timestamp":7}''
                 [(''id'', JNum 2), (''timestamp'', JNum 7)] = JNum 2\<close>
    by code_simp
  have mp7: \<open>jsonl_map json_env (contentA conflict_raw) (contentB conflict_raw) =
       [(JStr ''not json'', JStr ''not json''),
        (JNum 2, JObj [(''id'', JNum 2), (''timestamp'', JNum 7)])]\<close>
    by code_simp
  have out7: \<open>mergeJSONL json_env (contentA conflict_raw) (contentB conflict_raw)
               = Some (''not json'' @ nl @ ''{"id":2,"timestamp":7}'')\<close>
    by code_simp
  from claim [OF k f7 ow7 j7 refl refl, of None "''B''" 3000, THEN conjunct1] out7
  have r7: \<open>\<exists>d'. resolveConflict json_env db_jsonl ''key'' 7 keep_both None ''B'' 3000 =
              Inr (d', ''not json'' @ nl @ ''{"id":2,"timestamp":7}'')\<close>
    by blast
  from k f j pl mp r f7 ls7 raw rec ident mp7 r7 show ?thesis by (intro conjI)
qed

text \<open>
  C6 as stated fails in three ways.
  \<^item> An id that is falsy. Both sides hold a record with id 0, with the timestamps 5 and 9.
    The claim takes the identity from the field \<open>id\<close> and leaves one record, the one with
    timestamp 9; the code passes over the id 0, takes the timestamps 5 and 9 as the
    identities, and keeps both records.
  \<^item> The example of the claim as it is written, with the field \<open>ts\<close>: the records
    \<open>{"id":1,"ts":5}\<close> and \<open>{"id":1,"ts":9}\<close> leave the first one, with \<open>ts\<close> 5, since the
    code reads the field \<open>timestamp\<close>, which neither record has.
  \<^item> A line that is not JSON is not always kept: of the line \<open>abc\<close> on side A and the
    record \<open>{"id":"abc","timestamp":5}\<close> on side B only the record is left, since the record
    has the text of the line as its identity and a timestamp above 0.

  Three more inputs show what the other conditions of the statement above are for: with
  timestamps that are date strings the difference in the comparator is NaN and the
  output keeps the order of arrival, the later date first; of two records with id 1 and
  the timestamps -5 and 0 the one with -5 survives, since 0 is falsy; and two records
  whose id is an object are both kept, the two objects being different keys.
\<close>

theorem jsonl_identity_counterexample:
  \<open>JSON_parse json_env (contentA conflict_zero)
     = Some (JObj [(''id'', JNum 0), (''timestamp'', JNum 5)])
   \<and> JSON_parse json_env (contentB conflict_zero)
     = Some (JObj [(''id'', JNum 0), (''timestamp'', JNum 9)])
   \<and> jsonl_map json_env (contentA conflict_zero) (contentB conflict_zero) =
       [(JNum 5, JObj [(''id'', JNum 0), (''timestamp'', JNum 5)]),
        (JNum 9, JObj [(''id'', JNum 0), (''timestamp'', JNum 9)])]
   \<and> map_sum id snd (resolveConflict json_env db_jsonl ''key'' 6 keep_both None ''B'' 3000)
     = Inr (''{"id":0,"timestamp":5}'' @ nl @ ''{"id":0,"timestamp":9}'')
   \<and> JSON_parse json_env ''{"id":1,"ts":5}'' = Some (JObj [(''id'', JNum 1), (''ts'', JNum 5)])
   \<and> JSON_parse json_env ''{"id":1,"ts":9}'' = Some (JObj [(''id'', JNum 1), (''ts'', JNum 9)])
   \<and> mergeJSONL json_env ''{"id":1,"ts":5}'' ''{"id":1,"ts":9}''
     = Some ''{"id":1,"ts":5}''
   \<and> JSON_parse json_env ''abc'' = None
   \<and> JSON_parse json_env ''{"id":"abc","timestamp":5}''
     = Some (JObj [(''id'', JStr ''abc''), (''timestamp'', JNum 5)])
   \<and> mergeJSONL json_env ''abc'' ''{"id":"abc","timestamp":5}''
     = Some ''{"id":"abc","timestamp":5}''
   \<and> mergeJSONL json_env ''{"uuid":"a","timestamp":"2025-01-02"}''
       ''{"uuid":"b","timestamp":"2025-01-01"}''
     = Some (''{"uuid":"a","timestamp":"2025-01-02"}'' @ nl
             @ ''{"uuid":"b","timestamp":"2025-01-01"}'')
   \<and> mergeJSONL json_env ''{"id":1,"timestamp":-5}'' ''{"id":1,"timestamp":0}''
     = Some ''{"id":1,"timestamp":-5}''
   \<and> mergeJSONL json_env ''{"id":{"n":1}}'' ''{"id":{"n":1}}''
     = Some (''{"id":{"n":1}}'' @ nl @ ''{"id":{"n":1}}'')\<close>
  by code_simp

subsection \<open>The inventory scan\<close>

lemma map_of_distinct_entry:
  "distinct (map fst entries) \<Longrightarrow> x \<in> set entries \<Longrightarrow> map_of entries (fst x) = Some (snd x)"
  by (cases x) simp

lemma limited_facts:
  assumes "dn \<in> set LIMITED_DIRS"
  shows "dn \<notin> set EXCLUDED_DIRS" "dn \<noteq> ''projects''" "dn \<noteq> ''commands''"
  using assms by (auto simp: LIMITED_DIRS_def EXCLUDED_DIRS_def)

lemma traverse_limited:
  assumes lim: "dn \<in> set LIMITED_DIRS" and dist: "distinct (map fst entries)"
  shows "traverseDir e entries rel (Some dn) =
     concat (map (contribution e rel)
        (take MAX_RECENT_FILES
           (js_sort (\<lambda>a b. mtimeMs (snd b) - mtimeMs (snd a) \<le> 0) entries)))"
proof -
  let ?w = "take MAX_RECENT_FILES
              (js_sort (\<lambda>a b. mtimeMs (snd b) - mtimeMs (snd a) \<le> 0) entries)"
  have sub: "set ?w \<subseteq> set entries"
    using mset_js_sort [of "\<lambda>a b. mtimeMs (snd b) - mtimeMs (snd a) \<le> 0" entries]
    by (metis set_mset_mset set_take_subset)
  have each: "(case map_of entries (fst x) of
                 None \<Rightarrow> []
               | Some (Dir m sub) \<Rightarrow> traverseDir e sub (path_join rel (fst x)) (Some (fst x))
               | Some (File c m) \<Rightarrow>
                   if shouldSyncFile (fst x) (Some dn)
                   then [read_file e (path_join rel (fst x)) c m] else [])
              = contribution e rel x" if "x \<in> set ?w" for x
  proof -
    have "map_of entries (fst x) = Some (snd x)"
      using that sub dist by (auto intro: map_of_distinct_entry)
    then show ?thesis
      using limited_facts [OF lim]
      by (simp add: contribution_def shouldSyncFile_def split: fsnode.splits)
  qed
  have "traverseDir e entries rel (Some dn) =
          concat (map (\<lambda>file. case map_of entries file of
                 None \<Rightarrow> []
               | Some (Dir m sub) \<Rightarrow> traverseDir e sub (path_join rel file) (Some file)
               | Some (File c m) \<Rightarrow>
                   if shouldSyncFile file (Some dn)
                   then [read_file e (path_join rel file) c m] else []) (map fst ?w))"
    using limited_facts [OF lim] lim
    by (subst traverseDir.simps) (simp add: filesToProcess_def getRecentFiles_def)
  also have "\<dots> = concat (map (contribution e rel) ?w)"
    using each by (simp add: comp_def cong: map_cong)
  finally show ?thesis .
qed

lemma traverse_projects:
  "traverseDir e entries rel (Some ''projects'') =
     concat (map (read_session e) (take MAX_RECENT_SESSIONS
        (js_sort (\<lambda>a b. s_mtime b - s_mtime a \<le> 0) (allSessions entries))))"
  by (subst traverseDir.simps) (simp add: EXCLUDED_DIRS_def getRecentSessions_def)

lemma allSessions_iff:
  "s \<in> set (allSessions projectDirs) \<longleftrightarrow>
     (\<exists>pd m files f. (pd, Dir m files) \<in> set projectDirs \<and> f \<in> set files
        \<and> endsWith (fst f) ''.jsonl'' \<and> \<not> startsWith (fst f) ''agent-''
        \<and> s = \<lparr>s_node = snd f, s_relPath = ''projects'' @ ''/'' @ pd @ ''/'' @ fst f,
                s_mtime = mtimeMs (snd f)\<rparr>)"
  by (force simp: allSessions_def project_sessions_def split: fsnode.splits)

text \<open>
  C7, as the code has it. The window of a limited directory (\<open>todos\<close>, \<open>session-env\<close>) is
  made of its 10 most recently modified entries (all entries, if there are fewer): the
  entries split into the window and a rest, and no entry of the rest is newer than an
  entry of the window. The directory contributes what the entries of the window
  contribute: a file whose name ends in \<open>.json\<close> itself, any other file nothing, and a
  subdirectory its own traversal. So it contributes exactly the files of the window
  when they are all files with names ending in \<open>.json\<close>. The \<open>projects\<close> directory
  contributes the 10 most recently modified primary session files (all, if there are
  fewer), taken from the session files (\<open>.jsonl\<close>, not prefixed \<open>agent-\<close>) of all its
  subdirectories together.
\<close>

theorem recent_window_scan:
  assumes lim: "dn \<in> set LIMITED_DIRS" and dist: "distinct (map fst entries)"
  shows "(\<exists>window rest.
            mset (window @ rest) = mset entries
          \<and> length window = min 10 (length entries)
          \<and> (\<forall>a \<in> set window. \<forall>b \<in> set rest. mtimeMs (snd b) \<le> mtimeMs (snd a))
          \<and> traverseDir e entries rel (Some dn) = concat (map (contribution e rel) window)
          \<and> ((\<forall>x \<in> set window. \<not> isDirectory (snd x) \<and> endsWith (fst x) ''.json'') \<longrightarrow>
               map lf_filePath (traverseDir e entries rel (Some dn))
                 = map (\<lambda>x. path_join rel (fst x)) window))
       \<and> (\<exists>window rest.
            mset (window @ rest) = mset (allSessions projects)
          \<and> length window = min 10 (length (allSessions projects))
          \<and> (\<forall>a \<in> set window. \<forall>b \<in> set rest. s_mtime b \<le> s_mtime a)
          \<and> traverseDir e projects rel (Some ''projects'') = concat (map (read_session e) window))
       \<and> (\<forall>s. s \<in> set (allSessions projects) \<longleftrightarrow>
            (\<exists>pd m files f. (pd, Dir m files) \<in> set projects \<and> f \<in> set files
               \<and> endsWith (fst f) ''.jsonl'' \<and> \<not> startsWith (fst f) ''agent-''
               \<and> s = \<lparr>s_node = snd f, s_relPath = ''projects'' @ ''/'' @ pd @ ''/'' @ fst f,
                       s_mtime = mtimeMs (snd f)\<rparr>))"
proof (intro conjI)
  let ?s = "js_sort (\<lambda>a b. mtimeMs (snd b) - mtimeMs (snd a) \<le> 0) entries"
  let ?w = "take 10 ?s"
  have tr: "traverseDir e entries rel (Some dn) = concat (map (contribution e rel) ?w)"
    using traverse_limited [OF lim dist] by (simp add: MAX_RECENT_FILES_def)
  have files: "map lf_filePath (concat (map (contribution e rel) w))
                 = map (\<lambda>x. path_join rel (fst x)) w"
    if "\<forall>x \<in> set w. \<not> isDirectory (snd x) \<and> endsWith (fst x) ''.json''" for w
    using that
  proof (induction w)
    case Nil
    then show ?case by simp
  next
    case (Cons x w)
    then show ?case
      by (cases "snd x") (auto simp: contribution_def read_file_def)
  qed
  show "\<exists>window rest.
            mset (window @ rest) = mset entries
          \<and> length window = min 10 (length entries)
          \<and> (\<forall>a \<in> set window. \<forall>b \<in> set rest. mtimeMs (snd b) \<le> mtimeMs (snd a))
          \<and> traverseDir e entries rel (Some dn) = concat (map (contribution e rel) window)
          \<and> ((\<forall>x \<in> set window. \<not> isDirectory (snd x) \<and> endsWith (fst x) ''.json'') \<longrightarrow>
               map lf_filePath (traverseDir e entries rel (Some dn))
                 = map (\<lambda>x. path_join rel (fst x)) window)"
  proof (rule exI [of _ ?w], rule exI [of _ "drop 10 ?s"], intro conjI)
    show "mset (?w @ drop 10 ?s) = mset entries"
      by (rule window_props(1) [of 10 "\<lambda>x. mtimeMs (snd x)" entries])
    show "length ?w = min 10 (length entries)"
      by (rule window_props(2) [of 10 "\<lambda>x. mtimeMs (snd x)" entries])
    show "\<forall>a \<in> set ?w. \<forall>b \<in> set (drop 10 ?s). mtimeMs (snd b) \<le> mtimeMs (snd a)"
      by (rule window_props(3) [of 10 "\<lambda>x. mtimeMs (snd x)" entries])
    show "traverseDir e entries rel (Some dn) = concat (map (contribution e rel) ?w)"
      by (rule tr)
    show "(\<forall>x \<in> set ?w. \<not> isDirectory (snd x) \<and> endsWith (fst x) ''.json'') \<longrightarrow>
            map lf_filePath (traverseDir e entries rel (Some dn))
              = map (\<lambda>x. path_join rel (fst x)) ?w"
      using files [of ?w] tr by simp
  qed
next
  let ?s = "js_sort (\<lambda>a b. s_mtime b - s_mtime a \<le> 0) (allSessions projects)"
  show "\<exists>window rest.
            mset (window @ rest) = mset (allSessions projects)
          \<and> length window = min 10 (length (allSessions projects))
          \<and> (\<forall>a \<in> set window. \<forall>b \<in> set rest. s_mtime b \<le> s_mtime a)
          \<and> traverseDir e projects rel (Some ''projects'') = concat (map (read_session e) window)"
  proof (rule exI [of _ "take 10 ?s"], rule exI [of _ "drop 10 ?s"], intro conjI)
    show "mset (take 10 ?s @ drop 10 ?s) = mset (allSessions projects)"
      by (rule window_props(1) [of 10 s_mtime "allSessions projects"])
    show "length (take 10 ?s) = min 10 (length (allSessions projects))"
      by (rule window_props(2) [of 10 s_mtime "allSessions projects"])
    show "\<forall>a \<in> set (take 10 ?s). \<forall>b \<in> set (drop 10 ?s). s_mtime b \<le> s_mtime a"
      by (rule window_props(3) [of 10 s_mtime "allSessions projects"])
    show "traverseDir e projects rel (Some ''projects'')
            = concat (map (read_session e) (take 10 ?s))"
      using traverse_projects [of e projects rel] by (simp add: MAX_RECENT_SESSIONS_def)
  qed
next
  show "\<forall>s. s \<in> set (allSessions projects) \<longleftrightarrow>
            (\<exists>pd m files f. (pd, Dir m files) \<in> set projects \<and> f \<in> set files
               \<and> endsWith (fst f) ''.jsonl'' \<and> \<not> startsWith (fst f) ''agent-''
               \<and> s = \<lparr>s_node = snd f, s_relPath = ''projects'' @ ''/'' @ pd @ ''/'' @ fst f,
                       s_mtime = mtimeMs (snd f)\<rparr>)"
    using allSessions_iff by blast
qed

text \<open>
  The examples of the specification: 15 files in \<open>todos\<close> with distinct modification
  times, and 12 sessions in 4 project directories.
\<close>

theorem recent_window_scan_witness:
  "''todos'' \<in> set LIMITED_DIRS
   \<and> distinct (map fst (numbered_files ''.json'' 15))
   \<and> length (numbered_files ''.json'' 15) = 15
   \<and> length (allSessions example_projects) = 12
   \<and> (\<exists>window rest.
        mset (window @ rest) = mset (numbered_files ''.json'' 15)
      \<and> length window = 10
      \<and> (\<forall>a \<in> set window. \<forall>b \<in> set rest. mtimeMs (snd b) \<le> mtimeMs (snd a))
      \<and> traverseDir example_env (numbered_files ''.json'' 15) ''todos'' (Some ''todos'')
          = concat (map (contribution example_env ''todos'') window))
   \<and> (\<exists>window rest.
        mset (window @ rest) = mset (allSessions example_projects)
      \<and> length window = 10
      \<and> (\<forall>a \<in> set window. \<forall>b \<in> set rest. s_mtime b \<le> s_mtime a)
      \<and> traverseDir example_env example_projects ''projects'' (Some ''projects'')
          = concat (map (read_session example_env) window))
   \<and> map lf_filePath
        (readLocalFiles example_env (Some [(''todos'', Dir 0 (numbered_files ''.json'' 15))]))
       = [''todos/15.json'', ''todos/14.json'', ''todos/13.json'', ''todos/12.json'',
          ''todos/11.json'', ''todos/10.json'', ''todos/9.json'', ''todos/8.json'',
          ''todos/7.json'', ''todos/6.json'']
   \<and> map lf_filePath
        (readLocalFiles example_env (Some [(''projects'', Dir 0 example_projects)]))
       = [''projects/p4/s12.jsonl'', ''projects/p3/s11.jsonl'', ''projects/p2/s10.jsonl'',
          ''projects/p1/s9.jsonl'', ''projects/p4/s8.jsonl'', ''projects/p3/s7.jsonl'',
          ''projects/p2/s6.jsonl'', ''projects/p1/s5.jsonl'', ''projects/p4/s4.jsonl'',
          ''projects/p3/s3.jsonl'']"
proof -
  have l: "''todos'' \<in> set LIMITED_DIRS"
    by (simp add: LIMITED_DIRS_def)
  have d: "distinct (map fst (numbered_files ''.json'' 15))"
    by code_simp
  have n: "length (numbered_files ''.json'' 15) = 15"
    by (simp add: numbered_files_def)
  have m: "length (allSessions example_projects) = 12"
    by code_simp
  have t: "map lf_filePath
        (readLocalFiles example_env (Some [(''todos'', Dir 0 (numbered_files ''.json'' 15))]))
       = [''todos/15.json'', ''todos/14.json'', ''todos/13.json'', ''todos/12.json'',
          ''todos/11.json'', ''todos/10.json'', ''todos/9.json'', ''todos/8.json'',
          ''todos/7.json'', ''todos/6.json'']"
    by code_simp
  have p: "map lf_filePath
        (readLocalFiles example_env (Some [(''projects'', Dir 0 example_projects)]))
       = [''projects/p4/s12.jsonl'', ''projects/p3/s11.jsonl'', ''projects/p2/s10.jsonl'',
          ''projects/p1/s9.jsonl'', ''projects/p4/s8.jsonl'', ''projects/p3/s7.jsonl'',
          ''projects/p2/s6.jsonl'', ''projects/p1/s5.jsonl'', ''projects/p4/s4.jsonl'',
          ''projects/p3/s3.jsonl'']"
    by code_simp
  from recent_window_scan [OF l d, of example_env "''todos''" example_projects]
  have w1: "\<exists>window rest.
        mset (window @ rest) = mset (numbered_files ''.json'' 15)
      \<and> length window = 10
      \<and> (\<forall>a \<in> set window. \<forall>b \<in> set rest. mtimeMs (snd b) \<le> mtimeMs (snd a))
      \<and> traverseDir example_env (numbered_files ''.json'' 15) ''todos'' (Some ''todos'')
          = concat (map (contribution example_env ''todos'') window)"
    unfolding n by (elim conjE exE) (intro exI conjI, assumption, simp, assumption+)
  from recent_window_scan [OF l d, of example_env "''projects''" example_projects]
  have w2: "\<exists>window rest.
        mset (window @ rest) = mset (allSessions example_projects)
      \<and> length window = 10
      \<and> (\<forall>a \<in> set window. \<forall>b \<in> set rest. s_mtime b \<le> s_mtime a)
      \<and> traverseDir example_env example_projects ''projects'' (Some ''projects'')
          = concat (map (read_session example_env) window)"
    unfolding m by (elim conjE exE) (intro exI conjI, assumption, simp, assumption+)
  from l d n m w1 w2 t p show ?thesis by blast
qed

text \<open>
  C7 as stated fails on the eligibility rule. The directory \<open>todos\<close> holds 11 files, the
  newest of them \<open>notes.txt\<close>. Its 10 most recently modified files are \<open>notes.txt\<close> and
  \<open>10.json\<close> down to \<open>2.json\<close>; the scan returns 9 files, since \<open>notes.txt\<close> takes a place
  in the window and is not synced.
\<close>

theorem limited_directory_counterexample:
  "length (numbered_files ''.json'' 10 @ [(''notes.txt'', File ''n'' 11)]) = 11
   \<and> map lf_filePath
       (readLocalFiles example_env
          (Some [(''todos'',
                  Dir 0 (numbered_files ''.json'' 10 @ [(''notes.txt'', File ''n'' 11)]))]))
     = [''todos/10.json'', ''todos/9.json'', ''todos/8.json'', ''todos/7.json'',
        ''todos/6.json'', ''todos/5.json'', ''todos/4.json'', ''todos/3.json'',
        ''todos/2.json'']"
  by code_simp

subsection \<open>The scheduler\<close>

lemmas engine_eval =
  run_def step_def new_engine_def queueChange_def trySync_def performSync_begin_def
  performSync_end_def DEBOUNCE_MS_def MIN_INTERVAL_MS_def Let_def

text \<open>While a sync is in flight no step starts another one.\<close>

lemma no_second_sync_in_flight:
  "isSyncing st \<Longrightarrow> syncsStarted (step st ev) = syncsStarted st"
  by (auto simp: engine_eval split: event.splits option.splits list.splits)

text \<open>
  C9 at a failing input. A file changes and, 5 s later, the debounce timer starts the
  first sync. A second file changes 6 s after the first, while the sync is in flight, and
  its debounce timer fires at 11 s: \<open>trySync\<close> finds \<open>isSyncing\<close> set and returns, arming
  nothing. The sync finishes at 12 s. In the final state no sync is in flight, no timer
  is armed and the pending changes have been cleared, so no trailing sync follows: one
  sync was started in all, and a timer event changes nothing any more.
\<close>

theorem request_during_sync_dropped:
  "run new_engine
     [(1700000000000, FileChanged ''settings.json''), (1700000005000, DebounceElapsed)]
     = \<lparr>lastSyncTime = 0, pendingChanges = [''settings.json''], debounceTimer = None,
        retryTimers = [], isSyncing = True, syncsStarted = 1\<rparr>
   \<and> run new_engine
       [(1700000000000, FileChanged ''settings.json''), (1700000005000, DebounceElapsed),
        (1700000006000, FileChanged ''CLAUDE.md''), (1700000011000, DebounceElapsed)]
     = \<lparr>lastSyncTime = 0, pendingChanges = [''CLAUDE.md'', ''settings.json''],
        debounceTimer = None, retryTimers = [], isSyncing = True, syncsStarted = 1\<rparr>
   \<and> run new_engine
       [(1700000000000, FileChanged ''settings.json''), (1700000005000, DebounceElapsed),
        (1700000006000, FileChanged ''CLAUDE.md''), (1700000011000, DebounceElapsed),
        (1700000012000, SyncFinished True)]
     = \<lparr>lastSyncTime = 1700000012000, pendingChanges = [], debounceTimer = None,
        retryTimers = [], isSyncing = False, syncsStarted = 1\<rparr>
   \<and> (\<forall>t. step \<lparr>lastSyncTime = 1700000012000, pendingChanges = [], debounceTimer = None,
                 retryTimers = [], isSyncing = False, syncsStarted = 1\<rparr> (t, DebounceElapsed)
          = \<lparr>lastSyncTime = 1700000012000, pendingChanges = [], debounceTimer = None,
             retryTimers = [], isSyncing = False, syncsStarted = 1\<rparr>)
   \<and> (\<forall>t. step \<lparr>lastSyncTime = 1700000012000, pendingChanges = [], debounceTimer = None,
                 retryTimers = [], isSyncing = False, syncsStarted = 1\<rparr> (t, RetryElapsed)
          = \<lparr>lastSyncTime = 1700000012000, pendingChanges = [], debounceTimer = None,
             retryTimers = [], isSyncing = False, syncsStarted = 1\<rparr>)"
  by (simp add: engine_eval)

subsection \<open>Pull\<close>

text \<open>
  C3. For every device id, every cursor and every catalog, \<open>pullSync\<close> under a valid key
  returns exactly the catalog rows of the user of the key, from both tables
  (\<open>configFiles\<close> first), whose last writer is another device and, when a cursor is
  supplied, whose \<open>syncedAt\<close> is strictly greater than the cursor; without a cursor it
  returns all rows of other devices. Each row is returned with its id, path, content,
  hash, modification time, version, \<open>syncedAt\<close> and device id. No returned row has the
  caller's device id, with or without a cursor.
\<close>

theorem pull_returns_other_devices:
  assumes "validateApiKeyInternal e d apiKey = Some usr"
  shows "pullSync e d apiKey dev since =
           Inr (map (\<lambda>f. \<lparr>p_id = f_id f, p_filePath = filePath f, p_content = content f,
                           p_contentHash = contentHash f, p_lastModified = lastModified f,
                           p_version = version f, p_syncedAt = syncedAt f,
                           p_deviceId = deviceId f\<rparr>)
                  (filter (\<lambda>f. userId f = u_id usr \<and> deviceId f \<noteq> dev
                               \<and> (\<forall>t. since = Some t \<longrightarrow> t < syncedAt f))
                     (configFiles d @ sessionFiles d)))
         \<and> (\<forall>fs. pullSync e d apiKey dev since = Inr fs \<longrightarrow> (\<forall>p \<in> set fs. p_deviceId p \<noteq> dev))"
proof -
  have eq: "pull_keep dev since =
              (\<lambda>f. deviceId f \<noteq> dev \<and> (\<forall>t. since = Some t \<longrightarrow> t < syncedAt f))"
    by (auto simp: pull_keep_def fun_eq_iff split: option.splits)
  have pr: "pulled = (\<lambda>f. \<lparr>p_id = f_id f, p_filePath = filePath f, p_content = content f,
                           p_contentHash = contentHash f, p_lastModified = lastModified f,
                           p_version = version f, p_syncedAt = syncedAt f,
                           p_deviceId = deviceId f\<rparr>)"
    by (simp add: pulled_def fun_eq_iff)
  have 1: "pullSync e d apiKey dev since =
           Inr (map pulled (filter (\<lambda>f. userId f = u_id usr \<and> deviceId f \<noteq> dev
                               \<and> (\<forall>t. since = Some t \<longrightarrow> t < syncedAt f))
                     (configFiles d @ sessionFiles d)))"
    using assms by (simp add: pullSync_def Let_def eq by_user_def)
  have 2: "\<forall>p \<in> set fs. p_deviceId p \<noteq> dev" if "pullSync e d apiKey dev since = Inr fs" for fs
    using that unfolding 1 by (auto simp: pulled_def)
  from 1 2 show ?thesis unfolding pr by blast
qed

text \<open>
  On the catalog of two users, with the key of user 1: device A pulls the two rows that
  device B wrote for user 1, one from each table; with the cursor 20 only the row synced
  at 30; device B pulls the row of device A. The rows of user 7 are never returned.
\<close>

theorem pull_returns_other_devices_witness:
  "validateApiKeyInternal example_env db_two_users ''key'' = Some example_user
   \<and> pullSync example_env db_two_users ''key'' ''A'' None =
       Inr [\<lparr>p_id = 4, p_filePath = ''b.md'', p_content = ''b'', p_contentHash = ''hb'',
             p_lastModified = 19, p_version = 3, p_syncedAt = 20, p_deviceId = ''B''\<rparr>,
            \<lparr>p_id = 5, p_filePath = ''todos/t1-agent.json'', p_content = ''t'',
             p_contentHash = ''ht'', p_lastModified = 29, p_version = 4, p_syncedAt = 30,
             p_deviceId = ''B''\<rparr>]
   \<and> pullSync example_env db_two_users ''key'' ''A'' (Some 20) =
       Inr [\<lparr>p_id = 5, p_filePath = ''todos/t1-agent.json'', p_content = ''t'',
             p_contentHash = ''ht'', p_lastModified = 29, p_version = 4, p_syncedAt = 30,
             p_deviceId = ''B''\<rparr>]
   \<and> pullSync example_env db_two_users ''key'' ''B'' None =
       Inr [\<lparr>p_id = 2, p_filePath = ''a.md'', p_content = ''a'', p_contentHash = ''ha'',
             p_lastModified = 9, p_version = 1, p_syncedAt = 10, p_deviceId = ''A''\<rparr>]"
proof -
  have v: "validateApiKeyInternal example_env db_two_users ''key'' = Some example_user"
    by (simp add: validateApiKeyInternal_def example_env_def db_two_users_def hashApiKey_def
        get_user_def example_user_def)
  show ?thesis
    using v pull_returns_other_devices [OF v, of "''A''" None]
      pull_returns_other_devices [OF v, of "''A''" "Some 20"]
      pull_returns_other_devices [OF v, of "''B''" None]
    by (simp add: db_two_users_def example_user_def)
qed

end
